theory Spec2Isabelle
  imports Complex_Main "HOL-Library.Multiset" "HOL-Library.Product_Lexorder"
begin

chapter \<open>StreamFlow stream checker: the embedding\<close>

section \<open>Work queue (class StreamCheckQueue)\<close>

text \<open>
  \<^verbatim>\<open>StreamCheckQueue.__init__\<close> builds \<^verbatim>\<open>queue.Queue(maxsize=max_size)\<close>, three
  membership sets, a dict of failures and a dict of counters. \<^verbatim>\<open>queue.Queue\<close> is the
  standard library's FIFO queue: \<^verbatim>\<open>put\<close> appends at the tail, \<^verbatim>\<open>get\<close> removes the
  head, and \<^verbatim>\<open>put(block=False)\<close> raises \<^verbatim>\<open>queue.Full\<close> when \<^verbatim>\<open>maxsize > 0\<close> and
  the queue already holds \<^verbatim>\<open>maxsize\<close> items. The items are the pairs
  \<^verbatim>\<open>(priority, channel_id)\<close> that \<^verbatim>\<open>add_channel\<close> puts.
\<close>

record queue_stats =
  total_queued :: nat
  total_completed :: nat
  total_failed :: nat
  current_channel :: "int option"
  queue_size :: nat

record StreamCheckQueue =
  max_size :: int
  queue :: "(int \<times> int) list"
  queued :: "int set"
  in_progress :: "int set"
  completed :: "int set"
  failed :: "int \<rightharpoonup> (string \<times> string)"
  stats :: queue_stats

definition init_queue :: "int \<Rightarrow> StreamCheckQueue" where
  "init_queue m =
     \<lparr> max_size = m, queue = [], queued = {}, in_progress = {}, completed = {},
       failed = Map.empty,
       stats = \<lparr> total_queued = 0, total_completed = 0, total_failed = 0,
                 current_channel = None, queue_size = 0 \<rparr> \<rparr>"

text \<open>\<^verbatim>\<open>queue.Queue.put(item, block=False)\<close>: \<open>None\<close> stands for \<^verbatim>\<open>queue.Full\<close>.\<close>

definition queue_put :: "int \<Rightarrow> (int \<times> int) list \<Rightarrow> (int \<times> int) \<Rightarrow> (int \<times> int) list option" where
  "queue_put maxsize items item =
     (if 0 < maxsize \<and> maxsize \<le> int (length items) then None else Some (items @ [item]))"

text \<open>
  \<^verbatim>\<open>add_channel(channel_id, priority)\<close> returns the boolean and the queue object after
  the call.
\<close>

definition add_channel :: "StreamCheckQueue \<Rightarrow> int \<Rightarrow> int \<Rightarrow> bool \<times> StreamCheckQueue" where
  "add_channel q channel_id priority =
     (if channel_id \<notin> queued q \<and> channel_id \<notin> in_progress q \<and> channel_id \<notin> completed q
      then (case queue_put (max_size q) (queue q) (priority, channel_id) of
              Some items \<Rightarrow>
                (True, q\<lparr> queue := items,
                          queued := insert channel_id (queued q),
                          stats := (stats q)\<lparr> total_queued := total_queued (stats q) + 1,
                                              queue_size := length items \<rparr> \<rparr>)
            | None \<Rightarrow> (False, q))
      else (False, q))"

text \<open>\<^verbatim>\<open>add_channels\<close>: the loop over \<^verbatim>\<open>channel_ids\<close>, counting the successful adds.\<close>

fun add_channels :: "StreamCheckQueue \<Rightarrow> int list \<Rightarrow> int \<Rightarrow> nat \<times> StreamCheckQueue" where
  "add_channels q [] priority = (0, q)"
| "add_channels q (c # cs) priority =
     (case add_channel q c priority of
        (ok, q') \<Rightarrow> (case add_channels q' cs priority of
                       (added, q'') \<Rightarrow> ((if ok then 1 else 0) + added, q'')))"

definition remove_from_completed :: "StreamCheckQueue \<Rightarrow> int \<Rightarrow> bool \<times> StreamCheckQueue" where
  "remove_from_completed q channel_id =
     (if channel_id \<in> completed q
      then (True, q\<lparr> completed := completed q - {channel_id} \<rparr>)
      else (False, q))"

text \<open>
  \<^verbatim>\<open>get_next_channel(timeout)\<close>: \<^verbatim>\<open>self.queue.get(timeout=timeout)\<close> takes the head of
  the FIFO queue; on an empty queue it raises \<^verbatim>\<open>queue.Empty\<close> once the timeout has
  passed, and the method returns \<^verbatim>\<open>None\<close>. The priority of the pair is unpacked and
  not used.
\<close>

definition get_next_channel :: "StreamCheckQueue \<Rightarrow> int option \<times> StreamCheckQueue" where
  "get_next_channel q =
     (case queue q of
        [] \<Rightarrow> (None, q)
      | (priority, channel_id) # rest \<Rightarrow>
          (Some channel_id,
           q\<lparr> queue := rest,
              queued := queued q - {channel_id},
              in_progress := insert channel_id (in_progress q),
              stats := (stats q)\<lparr> current_channel := Some channel_id,
                                  queue_size := length rest \<rparr> \<rparr>))"

definition mark_completed :: "StreamCheckQueue \<Rightarrow> int \<Rightarrow> StreamCheckQueue" where
  "mark_completed q channel_id =
     q\<lparr> in_progress := in_progress q - {channel_id},
        completed := insert channel_id (completed q),
        stats := (stats q)\<lparr> total_completed := total_completed (stats q) + 1,
                            current_channel :=
                              (if current_channel (stats q) = Some channel_id then None
                               else current_channel (stats q)) \<rparr> \<rparr>"

text \<open>
  A run of the queue under its lock: the service's two operations on the queue contents,
  in the order the calls are serialized, with the ids the dequeues return.
\<close>

datatype queue_op = Enqueue int int | Dequeue

fun run_queue :: "StreamCheckQueue \<Rightarrow> queue_op list \<Rightarrow> int option list" where
  "run_queue q [] = []"
| "run_queue q (Enqueue channel_id priority # ops) =
     run_queue (snd (add_channel q channel_id priority)) ops"
| "run_queue q (Dequeue # ops) =
     (case get_next_channel q of (r, q') \<Rightarrow> r # run_queue q' ops)"

section \<open>Update tracker (class ChannelUpdateTracker)\<close>

text \<open>
  The tracker keeps \<^verbatim>\<open>self.updates = {'channels': {...}, 'last_global_check': ...}\<close>.
  A channel's entry is a dict from field names to JSON values; \<open>tval\<close> are the values the
  tracker stores or reads back from its file. The \<^verbatim>\<open>channels\<close> dict is kept as an
  association list in insertion order, since \<^verbatim>\<open>get_and_clear_channels_needing_check\<close>
  walks it in that order and may stop early. Its keys are \<^verbatim>\<open>str(channel_id)\<close> and are read
  back with \<^verbatim>\<open>int(channel_id)\<close>; the embedding keeps the integer itself as the key
  (a tracker file edited by hand to hold a key that is not the text of an integer, on which
  \<^verbatim>\<open>int\<close> raises, is outside it).
  A missing \<^verbatim>\<open>'channels'\<close> key is the empty list (every reader uses
  \<^verbatim>\<open>self.updates.get('channels', {})\<close>, every writer creates it first). Timestamps are
  the ISO strings of \<^verbatim>\<open>datetime.now().isoformat()\<close>, passed in as \<open>now\<close>. The write of
  the JSON file after each mutation is not part of the state.
\<close>

datatype tval = VNone | VBool bool | VInt int | VStr string | VList "int list"

type_synonym entry = "string \<rightharpoonup> tval"

record tracker =
  channels :: "(int \<times> entry) list"
  last_global_check :: "string option"

text \<open>Python truth value of a stored value, as \<^verbatim>\<open>if info.get(...)\<close> tests it.\<close>

fun truthy :: "tval \<Rightarrow> bool" where
  "truthy VNone = False"
| "truthy (VBool b) = b"
| "truthy (VInt n) = (n \<noteq> 0)"
| "truthy (VStr s) = (s \<noteq> [])"
| "truthy (VList xs) = (xs \<noteq> [])"

text \<open>\<^verbatim>\<open>d.get(key, default)\<close> on an entry.\<close>

definition entry_get :: "entry \<Rightarrow> string \<Rightarrow> tval \<Rightarrow> tval" where
  "entry_get info key dflt = (case info key of Some v \<Rightarrow> v | None \<Rightarrow> dflt)"

text \<open>
  \<^verbatim>\<open>d[k] = v\<close> on an insertion-ordered dict: an existing key keeps its place, a new key
  goes to the end.
\<close>

fun dict_set :: "('k \<times> 'v) list \<Rightarrow> 'k \<Rightarrow> 'v \<Rightarrow> ('k \<times> 'v) list" where
  "dict_set [] k v = [(k, v)]"
| "dict_set ((k', v') # kvs) k v =
     (if k' = k then (k, v) # kvs else (k', v') # dict_set kvs k v)"

definition opt_int :: "int option \<Rightarrow> tval" where
  "opt_int n = (case n of None \<Rightarrow> VNone | Some i \<Rightarrow> VInt i)"

text \<open>
  \<^verbatim>\<open>mark_channel_updated(channel_id, timestamp, stream_count)\<close>. Both branches assign a
  fresh dict literal to the channel's key.
\<close>

definition mark_channel_updated ::
  "tracker \<Rightarrow> string \<Rightarrow> int \<Rightarrow> string option \<Rightarrow> int option \<Rightarrow> tracker" where
  "mark_channel_updated t now channel_id timestamp stream_count =
     (let timestamp = (case timestamp of None \<Rightarrow> now | Some ts \<Rightarrow> ts) in
      case map_of (channels t) channel_id of
        Some channel_info \<Rightarrow>
          (let checked_stream_ids = entry_get channel_info ''checked_stream_ids'' (VList []) in
           t\<lparr> channels := dict_set (channels t) channel_id
                 [''last_update'' \<mapsto> VStr timestamp,
                  ''needs_check'' \<mapsto> VBool True,
                  ''stream_count'' \<mapsto> opt_int stream_count,
                  ''checked_stream_ids'' \<mapsto> checked_stream_ids] \<rparr>)
      | None \<Rightarrow>
          t\<lparr> channels := dict_set (channels t) channel_id
                [''last_update'' \<mapsto> VStr timestamp,
                 ''needs_check'' \<mapsto> VBool True,
                 ''stream_count'' \<mapsto> opt_int stream_count,
                 ''checked_stream_ids'' \<mapsto> VList []] \<rparr>)"

text \<open>
  \<^verbatim>\<open>mark_channels_updated(channel_ids, timestamp, stream_counts)\<close>: the same assignment
  for each id in turn, with \<^verbatim>\<open>stream_counts.get(channel_id)\<close> as the count.
\<close>

fun mark_channels_loop ::
  "(int \<times> entry) list \<Rightarrow> string \<Rightarrow> (int \<rightharpoonup> int) \<Rightarrow> int list \<Rightarrow> (int \<times> entry) list" where
  "mark_channels_loop chans timestamp stream_counts [] = chans"
| "mark_channels_loop chans timestamp stream_counts (channel_id # rest) =
     (let stream_count = stream_counts channel_id in
      mark_channels_loop
        (case map_of chans channel_id of
           Some channel_info \<Rightarrow>
             (let checked_stream_ids = entry_get channel_info ''checked_stream_ids'' (VList []) in
              dict_set chans channel_id
                [''last_update'' \<mapsto> VStr timestamp,
                 ''needs_check'' \<mapsto> VBool True,
                 ''stream_count'' \<mapsto> opt_int stream_count,
                 ''checked_stream_ids'' \<mapsto> checked_stream_ids])
         | None \<Rightarrow>
             dict_set chans channel_id
               [''last_update'' \<mapsto> VStr timestamp,
                ''needs_check'' \<mapsto> VBool True,
                ''stream_count'' \<mapsto> opt_int stream_count,
                ''checked_stream_ids'' \<mapsto> VList []])
        timestamp stream_counts rest)"

definition mark_channels_updated ::
  "tracker \<Rightarrow> string \<Rightarrow> int list \<Rightarrow> string option \<Rightarrow> (int \<rightharpoonup> int) option \<Rightarrow> tracker" where
  "mark_channels_updated t now channel_ids timestamp stream_counts =
     (let timestamp = (case timestamp of None \<Rightarrow> now | Some ts \<Rightarrow> ts);
          stream_counts = (case stream_counts of None \<Rightarrow> Map.empty | Some m \<Rightarrow> m)
      in t\<lparr> channels := mark_channels_loop (channels t) timestamp stream_counts channel_ids \<rparr>)"

text \<open>
  \<^verbatim>\<open>get_and_clear_channels_needing_check(max_channels)\<close>. The loop walks the items of
  the dict; \<open>acc\<close> is the list \<^verbatim>\<open>channels\<close> built so far. The test
  \<^verbatim>\<open>if max_channels and len(channels) >= max_channels: break\<close> reads \<^verbatim>\<open>None\<close> and
  \<^verbatim>\<open>0\<close> as false, so neither stops the loop.
\<close>

definition limit_reached :: "int option \<Rightarrow> int list \<Rightarrow> bool" where
  "limit_reached max_channels acc =
     (case max_channels of
        None \<Rightarrow> False
      | Some m \<Rightarrow> m \<noteq> 0 \<and> m \<le> int (length acc))"

fun clear_loop ::
  "string \<Rightarrow> int option \<Rightarrow> (int \<times> entry) list \<Rightarrow> int list \<Rightarrow> (int \<times> entry) list \<times> int list" where
  "clear_loop timestamp max_channels [] acc = ([], acc)"
| "clear_loop timestamp max_channels ((channel_id, info) # rest) acc =
     (if truthy (entry_get info ''needs_check'' (VBool False))
      then (let acc' = acc @ [channel_id];
                info' = info(''needs_check'' \<mapsto> VBool False, ''queued_at'' \<mapsto> VStr timestamp)
            in if limit_reached max_channels acc'
               then ((channel_id, info') # rest, acc')
               else (case clear_loop timestamp max_channels rest acc' of
                       (rest', out) \<Rightarrow> ((channel_id, info') # rest', out)))
      else (case clear_loop timestamp max_channels rest acc of
              (rest', out) \<Rightarrow> ((channel_id, info) # rest', out)))"

definition get_and_clear_channels_needing_check ::
  "tracker \<Rightarrow> string \<Rightarrow> int option \<Rightarrow> int list \<times> tracker" where
  "get_and_clear_channels_needing_check t now max_channels =
     (case clear_loop now max_channels (channels t) [] of
        (chans', out) \<Rightarrow> (out, t\<lparr> channels := chans' \<rparr>))"

text \<open>\<^verbatim>\<open>get_channels_needing_check\<close>, the read-only listing.\<close>

definition get_channels_needing_check :: "tracker \<Rightarrow> int list" where
  "get_channels_needing_check t =
     map fst (filter (\<lambda>(channel_id, info). truthy (entry_get info ''needs_check'' (VBool False)))
                (channels t))"

text \<open>
  \<^verbatim>\<open>mark_channel_checked(channel_id, timestamp, stream_count, checked_stream_ids)\<close>, which
  the worker calls when a check has finished: it clears \<^verbatim>\<open>needs_check\<close> as well.
\<close>

definition mark_channel_checked ::
  "tracker \<Rightarrow> string \<Rightarrow> int \<Rightarrow> string option \<Rightarrow> int option \<Rightarrow> int list option \<Rightarrow> tracker" where
  "mark_channel_checked t now channel_id timestamp stream_count checked_stream_ids =
     (let timestamp = (case timestamp of None \<Rightarrow> now | Some ts \<Rightarrow> ts) in
      case map_of (channels t) channel_id of
        Some info \<Rightarrow>
          (let info1 = info(''needs_check'' \<mapsto> VBool False, ''last_check'' \<mapsto> VStr timestamp);
               info2 = (case stream_count of
                          None \<Rightarrow> info1
                        | Some n \<Rightarrow> info1(''stream_count'' \<mapsto> VInt n));
               info3 = (case checked_stream_ids of
                          None \<Rightarrow> info2
                        | Some ids \<Rightarrow> info2(''checked_stream_ids'' \<mapsto> VList ids))
           in t\<lparr> channels := dict_set (channels t) channel_id info3 \<rparr>)
      | None \<Rightarrow>
          t\<lparr> channels := dict_set (channels t) channel_id
                [''needs_check'' \<mapsto> VBool False,
                 ''last_check'' \<mapsto> VStr timestamp,
                 ''stream_count'' \<mapsto> opt_int stream_count,
                 ''checked_stream_ids'' \<mapsto>
                    VList (case checked_stream_ids of None \<Rightarrow> [] | Some ids \<Rightarrow> ids)] \<rparr>)"

definition mark_channel_for_force_check :: "tracker \<Rightarrow> int \<Rightarrow> tracker" where
  "mark_channel_for_force_check t channel_id =
     (let info = (case map_of (channels t) channel_id of None \<Rightarrow> Map.empty | Some i \<Rightarrow> i)
      in t\<lparr> channels := dict_set (channels t) channel_id (info(''force_check'' \<mapsto> VBool True)) \<rparr>)"

text \<open>
  \<^verbatim>\<open>should_force_check\<close> returns the stored value itself, which the caller tests for
  truth.
\<close>

definition should_force_check :: "tracker \<Rightarrow> int \<Rightarrow> tval" where
  "should_force_check t channel_id =
     (case map_of (channels t) channel_id of
        Some info \<Rightarrow> entry_get info ''force_check'' (VBool False)
      | None \<Rightarrow> VBool False)"

definition clear_force_check :: "tracker \<Rightarrow> int \<Rightarrow> tracker" where
  "clear_force_check t channel_id =
     (case map_of (channels t) channel_id of
        Some info \<Rightarrow>
          t\<lparr> channels := dict_set (channels t) channel_id (info(''force_check'' \<mapsto> VBool False)) \<rparr>
      | None \<Rightarrow> t)"

definition mark_global_check :: "tracker \<Rightarrow> string \<Rightarrow> string option \<Rightarrow> tracker" where
  "mark_global_check t now timestamp =
     t\<lparr> last_global_check := Some (case timestamp of None \<Rightarrow> now | Some ts \<Rightarrow> ts) \<rparr>"

definition get_last_global_check :: "tracker \<Rightarrow> string option" where
  "get_last_global_check t = last_global_check t"

text \<open>
  Serialized runs of the tracker: every method takes \<^verbatim>\<open>self.lock\<close> for its whole body,
  so concurrent callers are one after another in some order. A run is such an order of
  mark-updated events (of one channel or of a list of channels) and claim calls; it yields
  the result of every claim call.
\<close>

datatype tracker_op =
    MarkUpdated string int "string option" "int option"
  | MarkMany string "int list" "string option" "(int \<rightharpoonup> int) option"
  | Claim string "int option"

fun run_tracker :: "tracker \<Rightarrow> tracker_op list \<Rightarrow> int list list \<times> tracker" where
  "run_tracker t [] = ([], t)"
| "run_tracker t (MarkUpdated now channel_id timestamp stream_count # ops) =
     run_tracker (mark_channel_updated t now channel_id timestamp stream_count) ops"
| "run_tracker t (MarkMany now channel_ids timestamp stream_counts # ops) =
     run_tracker (mark_channels_updated t now channel_ids timestamp stream_counts) ops"
| "run_tracker t (Claim now max_channels # ops) =
     (case get_and_clear_channels_needing_check t now max_channels of
        (out, t') \<Rightarrow> (case run_tracker t' ops of (outs, t'') \<Rightarrow> (out # outs, t'')))"

text \<open>The flag as the claim call reads it.\<close>

definition needs_check :: "tracker \<Rightarrow> int \<Rightarrow> bool" where
  "needs_check t channel_id =
     (case map_of (channels t) channel_id of
        Some info \<Rightarrow> truthy (entry_get info ''needs_check'' (VBool False))
      | None \<Rightarrow> False)"

subsection \<open>Notions used in the statements about the tracker\<close>

text \<open>
  What a claim call may take from the list of flagged ids, following the loop's
  \<^verbatim>\<open>break\<close> test: everything when \<^verbatim>\<open>max_channels\<close> is \<^verbatim>\<open>None\<close> or \<^verbatim>\<open>0\<close>, the first
  \<^verbatim>\<open>max_channels\<close> ids when it is positive; for a negative value the test holds after the
  first id.
\<close>

definition claimed_upto :: "int option \<Rightarrow> int list \<Rightarrow> int list" where
  "claimed_upto max_channels ids =
     (case max_channels of
        None \<Rightarrow> ids
      | Some m \<Rightarrow> if m = 0 then ids else take (nat (max 1 m)) ids)"

text \<open>
  \<open>pending t c\<close> is 1 while channel \<open>c\<close> is flagged and 0 otherwise;
  \<open>times_flagged t ops c\<close> counts, along a run, the mark-updated events that turn the flag
  of \<open>c\<close> from clear to set.
\<close>

definition pending :: "tracker \<Rightarrow> int \<Rightarrow> nat" where
  "pending t c = (if needs_check t c then 1 else 0)"

fun times_flagged :: "tracker \<Rightarrow> tracker_op list \<Rightarrow> int \<Rightarrow> nat" where
  "times_flagged t [] c = 0"
| "times_flagged t (MarkUpdated now channel_id timestamp stream_count # ops) c =
     (if channel_id = c \<and> \<not> needs_check t c then 1 else 0)
     + times_flagged (mark_channel_updated t now channel_id timestamp stream_count) ops c"
| "times_flagged t (MarkMany now channel_ids timestamp stream_counts # ops) c =
     (if c \<in> set channel_ids \<and> \<not> needs_check t c then 1 else 0)
     + times_flagged (mark_channels_updated t now channel_ids timestamp stream_counts) ops c"
| "times_flagged t (Claim now max_channels # ops) c =
     times_flagged (snd (get_and_clear_channels_needing_check t now max_channels)) ops c"

text \<open>Shorthands for the proofs: the flag test, the two assignments of the claim loop,
  the dict literal of the mark-updated methods, and the ids a loop may still take when it
  has already collected \<open>acc\<close>.\<close>

definition flagged :: "entry \<Rightarrow> bool" where
  "flagged info = truthy (entry_get info ''needs_check'' (VBool False))"

definition cleared :: "string \<Rightarrow> entry \<Rightarrow> entry" where
  "cleared ts info = info(''needs_check'' \<mapsto> VBool False, ''queued_at'' \<mapsto> VStr ts)"

definition room :: "int option \<Rightarrow> int list \<Rightarrow> int list \<Rightarrow> int list" where
  "room mx acc ids =
     (case mx of
        None \<Rightarrow> ids
      | Some m \<Rightarrow> if m = 0 then ids else take (max 1 (nat m - length acc)) ids)"

definition updated_fields :: "string \<Rightarrow> int option \<Rightarrow> tval \<Rightarrow> entry" where
  "updated_fields ts sc chk =
     [''last_update'' \<mapsto> VStr ts, ''needs_check'' \<mapsto> VBool True,
      ''stream_count'' \<mapsto> opt_int sc, ''checked_stream_ids'' \<mapsto> chk]"

definition kept_checked :: "entry option \<Rightarrow> tval" where
  "kept_checked e =
     (case e of
        Some info \<Rightarrow> entry_get info ''checked_stream_ids'' (VList [])
      | None \<Rightarrow> VList [])"

text \<open>Two tracker states for the concrete cases below.\<close>

definition tracker_three :: tracker where
  "tracker_three =
     \<lparr> channels = [(1, [''needs_check'' \<mapsto> VBool True]),
                   (2, [''needs_check'' \<mapsto> VBool True, ''last_check'' \<mapsto> VStr ''2025-11-20T03:00:00'']),
                   (3, [''needs_check'' \<mapsto> VBool False])],
       last_global_check = None \<rparr>"

definition tracker_forced :: tracker where
  "tracker_forced =
     \<lparr> channels = [(5, [''needs_check'' \<mapsto> VBool False,
                        ''last_check'' \<mapsto> VStr ''2025-11-20T03:00:00'',
                        ''queued_at'' \<mapsto> VStr ''2025-11-20T02:59:00'',
                        ''stream_count'' \<mapsto> VInt 2,
                        ''checked_stream_ids'' \<mapsto> VList [10, 11],
                        ''force_check'' \<mapsto> VBool True])],
       last_global_check = None \<rparr>"

section \<open>Scheduler: the cron check (StreamCheckerService._check_global_schedule)\<close>

text \<open>
  A \<^verbatim>\<open>datetime\<close> is an integer number of microseconds (the resolution of Python's
  \<^verbatim>\<open>datetime\<close>), counted from \<^verbatim>\<open>datetime.min\<close>; a difference of two of them is the
  \<^verbatim>\<open>timedelta\<close>. The code compares \<^verbatim>\<open>total_seconds() / 60\<close> and
  \<^verbatim>\<open>total_seconds() / 3600\<close>, floating-point quotients of that difference, with 10 and 2;
  the embedding compares the exact difference with 10 minutes and 2 hours.
\<close>

type_synonym datetime = int

definition microseconds_per_minute :: int where
  "microseconds_per_minute = 60 * 1000000"

definition microseconds_per_hour :: int where
  "microseconds_per_hour = 3600 * 1000000"

definition microseconds_per_day :: int where
  "microseconds_per_day = 86400 * 1000000"

text \<open>
  The part of the configuration the check reads: the values of
  \<^verbatim>\<open>global_check_schedule.enabled\<close> (its truth value), \<^verbatim>\<open>pipeline_mode\<close>,
  \<^verbatim>\<open>global_check_schedule.cron_expression\<close> (\<open>None\<close> when the key is missing or null) and
  the legacy fields.
\<close>

record schedule_config =
  schedule_enabled :: bool
  pipeline_mode :: string
  cron_expression :: "string option"
  frequency :: string
  hour :: nat
  minute :: nat
  day_of_month :: nat

text \<open>Decimal text of a number, as an f-string prints it.\<close>

function str_nat :: "nat \<Rightarrow> string" where
  "str_nat n =
     (if n < 10 then [char_of (48 + n)]
      else str_nat (n div 10) @ [char_of (48 + n mod 10)])"
  by pat_completeness auto
termination
  by (relation "measure id") auto

definition convert_legacy_schedule_to_cron :: "schedule_config \<Rightarrow> string" where
  "convert_legacy_schedule_to_cron cfg =
     (if frequency cfg = ''monthly''
      then str_nat (minute cfg) @ '' '' @ str_nat (hour cfg) @ '' '' @ str_nat (day_of_month cfg) @ '' * *''
      else str_nat (minute cfg) @ '' '' @ str_nat (hour cfg) @ '' * * *'')"

text \<open>
  The expression the check works with: the configured one, or the legacy conversion when
  it is missing or empty (\<^verbatim>\<open>if not cron_expression\<close>).
\<close>

definition effective_cron :: "schedule_config \<Rightarrow> string" where
  "effective_cron cfg =
     (case cron_expression cfg of
        None \<Rightarrow> convert_legacy_schedule_to_cron cfg
      | Some e \<Rightarrow> if e = [] then convert_legacy_schedule_to_cron cfg else e)"

text \<open>
  \<^verbatim>\<open>croniter\<close> is a third-party library; the check takes what it uses of it as a
  parameter: whether the import succeeds, \<^verbatim>\<open>croniter.is_valid(expr)\<close> and
  \<^verbatim>\<open>croniter(expr, now).get_prev(datetime)\<close>. \<^verbatim>\<open>datetime.fromisoformat\<close> is a parameter as
  well; \<open>None\<close> is its \<^verbatim>\<open>ValueError\<close>.
\<close>

record croniter =
  installed :: bool
  is_valid :: "string \<Rightarrow> bool"
  get_prev :: "string \<Rightarrow> datetime \<Rightarrow> datetime"

datatype schedule_outcome = Launched | NotLaunched | RaisedValueError

text \<open>
  \<^verbatim>\<open>_check_global_schedule\<close>. \<open>Launched\<close> is the call of \<^verbatim>\<open>_perform_global_action()\<close>
  (which catches its own exceptions) followed by \<^verbatim>\<open>mark_global_check()\<close>, whose timestamp
  \<open>mark_now\<close> is the clock after the action. The result is the outcome and the tracker
  after the call.
\<close>

definition check_global_schedule ::
  "croniter \<Rightarrow> (string \<Rightarrow> datetime option) \<Rightarrow> schedule_config \<Rightarrow> tracker \<Rightarrow> datetime \<Rightarrow> string
     \<Rightarrow> schedule_outcome \<times> tracker" where
  "check_global_schedule lib fromisoformat cfg t now mark_now =
     (if \<not> schedule_enabled cfg then (NotLaunched, t)
      else if pipeline_mode cfg \<notin> set [''pipeline_1_5'', ''pipeline_2_5'', ''pipeline_3'', ''pipeline_4'']
      then (NotLaunched, t)
      else if \<not> installed lib then (NotLaunched, t)
      else if \<not> is_valid lib (effective_cron cfg) then (NotLaunched, t)
      else
        (let last_global = get_last_global_check t;
             prev_scheduled_time = get_prev lib (effective_cron cfg) now
         in case last_global of
              None \<Rightarrow>
                if \<bar>now - prev_scheduled_time\<bar> \<le> 10 * microseconds_per_minute
                then (Launched, mark_global_check t mark_now None)
                else (NotLaunched, t)
            | Some s \<Rightarrow>
                (case fromisoformat s of
                   None \<Rightarrow> (RaisedValueError, t)
                 | Some last_check_time \<Rightarrow>
                     if prev_scheduled_time > last_check_time
                     then (Launched, mark_global_check t mark_now None)
                     else (NotLaunched, t))))"

text \<open>
  For the concrete cases: the instants \<^verbatim>\<open>croniter\<close> gives for the default expression
  \<^verbatim>\<open>'0 3 * * *'\<close> (every day at 03:00), which is the only expression this instance
  accepts. The previous scheduled instant is the latest 03:00 strictly before \<open>now\<close>.
\<close>

definition croniter_daily_3am :: croniter where
  "croniter_daily_3am =
     \<lparr> installed = True,
       is_valid = (\<lambda>e. e = ''0 3 * * *''),
       get_prev = (\<lambda>e now.
          ((now - 3 * microseconds_per_hour - 1) div microseconds_per_day) * microseconds_per_day
            + 3 * microseconds_per_hour) \<rparr>"

definition config_default_schedule :: "string \<Rightarrow> schedule_config" where
  "config_default_schedule mode =
     \<lparr> schedule_enabled = True, pipeline_mode = mode, cron_expression = Some ''0 3 * * *'',
       frequency = ''daily'', hour = 3, minute = 0, day_of_month = 1 \<rparr>"

definition tracker_fresh :: tracker where
  "tracker_fresh = \<lparr> channels = [], last_global_check = None \<rparr>"

text \<open>Day 739000 after \<^verbatim>\<open>datetime.min\<close>, at the given hour and minute.\<close>

definition at_clock :: "int \<Rightarrow> int \<Rightarrow> datetime" where
  "at_clock h m = 739000 * microseconds_per_day + h * microseconds_per_hour + m * microseconds_per_minute"

text \<open>A stand-in for \<^verbatim>\<open>datetime.fromisoformat\<close> that reads one timestamp, 03:05:30 of
  the sample day.\<close>

definition fromisoformat_sample :: "string \<Rightarrow> datetime option" where
  "fromisoformat_sample s =
     (if s = ''2024-04-24T03:05:30'' then Some (at_clock 3 5 + 30 * 1000000) else None)"

section \<open>Configuration (class StreamCheckConfig)\<close>

text \<open>
  JSON values as \<^verbatim>\<open>json.load\<close> returns them; an object is a Python dict, kept as an
  association list in insertion order with each key once. Numbers are exact rationals
  (Python keeps \<^verbatim>\<open>int\<close> and \<^verbatim>\<open>float\<close> apart; nothing below looks inside a number).
\<close>

datatype json =
    JNull
  | JBool bool
  | JNum rat
  | JStr string
  | JArr "json list"
  | JObj "(string \<times> json) list"

text \<open>\<^verbatim>\<open>StreamCheckConfig.DEFAULT_CONFIG\<close>, key by key.\<close>

definition DEFAULT_CONFIG :: "(string \<times> json) list" where
  "DEFAULT_CONFIG =
     [(''enabled'', JBool True),
      (''check_interval'', JNum 300),
      (''pipeline_mode'', JStr ''pipeline_1_5''),
      (''global_check_schedule'', JObj
         [(''enabled'', JBool True),
          (''cron_expression'', JStr ''0 3 * * *''),
          (''frequency'', JStr ''daily''),
          (''hour'', JNum 3),
          (''minute'', JNum 0),
          (''day_of_month'', JNum 1)]),
      (''stream_analysis'', JObj
         [(''ffmpeg_duration'', JNum 30),
          (''idet_frames'', JNum 500),
          (''timeout'', JNum 30),
          (''retries'', JNum 1),
          (''retry_delay'', JNum 10),
          (''user_agent'', JStr ''VLC/3.0.14'')]),
      (''scoring'', JObj
         [(''weights'', JObj
            [(''bitrate'', JNum (30 / 100)),
             (''resolution'', JNum (25 / 100)),
             (''fps'', JNum (15 / 100)),
             (''codec'', JNum (10 / 100)),
             (''errors'', JNum (20 / 100))]),
          (''min_score'', JNum 0),
          (''prefer_h265'', JBool True),
          (''penalize_interlaced'', JBool True),
          (''penalize_dropped_frames'', JBool True)]),
      (''queue'', JObj
         [(''max_size'', JNum 1000),
          (''check_on_update'', JBool True),
          (''max_channels_per_run'', JNum 50)])]"

text \<open>\<^verbatim>\<open>dict.update(other)\<close> for a dict \<^verbatim>\<open>other\<close>: one assignment per item, in order.\<close>

fun dict_update :: "('k \<times> 'v) list \<Rightarrow> ('k \<times> 'v) list \<Rightarrow> ('k \<times> 'v) list" where
  "dict_update base [] = base"
| "dict_update base ((k, v) # rest) = dict_update (dict_set base k v) rest"

text \<open>
  The file as \<^verbatim>\<open>_load_config\<close> finds it: missing; present but not JSON
  (\<^verbatim>\<open>json.JSONDecodeError\<close>); or present with a JSON object, which \<^verbatim>\<open>json.load\<close> returns
  as the dict \<open>loaded\<close>. A file whose top-level JSON value is not an object is outside this
  type: \<^verbatim>\<open>config.update(loaded)\<close> is then not a merge of two dicts.
\<close>

datatype config_file = FileMissing | FileInvalid | FileObject "(string \<times> json) list"

text \<open>
  \<^verbatim>\<open>_load_config\<close> returns the configuration; the second component is what
  \<^verbatim>\<open>_save_config\<close> writes when the defaults are created.
\<close>

definition load_config :: "config_file \<Rightarrow> (string \<times> json) list \<times> (string \<times> json) list option" where
  "load_config file =
     (case file of
        FileObject loaded \<Rightarrow> (dict_update DEFAULT_CONFIG loaded, None)
      | FileInvalid \<Rightarrow> (DEFAULT_CONFIG, Some DEFAULT_CONFIG)
      | FileMissing \<Rightarrow> (DEFAULT_CONFIG, Some DEFAULT_CONFIG))"

text \<open>
  The inner function \<^verbatim>\<open>deep_update(base, updates)\<close> of \<^verbatim>\<open>StreamCheckConfig.update\<close>:
  it mutates \<^verbatim>\<open>base\<close> in place, and a nested dict of \<^verbatim>\<open>base\<close> is mutated where it
  stands.
\<close>

function deep_update :: "(string \<times> json) list \<Rightarrow> (string \<times> json) list \<Rightarrow> (string \<times> json) list" where
  "deep_update base [] = base"
| "deep_update base ((key, value) # rest) =
     deep_update
       (case value of
          JObj u \<Rightarrow>
            (case map_of base key of
               Some (JObj b) \<Rightarrow> dict_set base key (JObj (deep_update b u))
             | _ \<Rightarrow> dict_set base key value)
        | _ \<Rightarrow> dict_set base key value)
       rest"
  by pat_completeness auto
termination
  by (relation "measure (\<lambda>(base, updates). size (JObj updates))") auto

text \<open>\<^verbatim>\<open>StreamCheckConfig.update(updates)\<close>: the new configuration, which is also saved.\<close>

definition config_update :: "(string \<times> json) list \<Rightarrow> (string \<times> json) list \<Rightarrow> (string \<times> json) list" where
  "config_update config updates = deep_update config updates"

text \<open>
  \<^verbatim>\<open>StreamCheckConfig.get(key, default)\<close> with the dotted key already split at the dots.
  A JSON \<^verbatim>\<open>null\<close> is Python's \<^verbatim>\<open>None\<close>, which yields the default.
\<close>

fun config_get_loop :: "json option \<Rightarrow> string list \<Rightarrow> json option" where
  "config_get_loop value [] = value"
| "config_get_loop value (k # ks) =
     (case value of
        Some (JObj d) \<Rightarrow> config_get_loop (map_of d k) ks
      | _ \<Rightarrow> None)"

definition config_get :: "(string \<times> json) list \<Rightarrow> string list \<Rightarrow> json \<Rightarrow> json" where
  "config_get config keys dflt =
     (case config_get_loop (Some (JObj config)) keys of
        None \<Rightarrow> dflt
      | Some JNull \<Rightarrow> dflt
      | Some v \<Rightarrow> v)"

text \<open>A config file that sets only \<^verbatim>\<open>scoring.min_score\<close>.\<close>

definition file_min_score :: "(string \<times> json) list" where
  "file_min_score = [(''scoring'', JObj [(''min_score'', JNum (1 / 2))])]"

text \<open>One step of \<^verbatim>\<open>deep_update\<close>: what the key of the item is set to.\<close>

definition merged :: "json option \<Rightarrow> json \<Rightarrow> json" where
  "merged old value =
     (case value of
        JObj u \<Rightarrow> (case old of Some (JObj b) \<Rightarrow> JObj (deep_update b u) | _ \<Rightarrow> value)
      | _ \<Rightarrow> value)"

section \<open>Event-time ordering\<close>

text \<open>
  \<^verbatim>\<open>apply_event_time_ordering_for_channels\<close> reads a channel's streams from the API and
  parses each name into an event time (or none) and an item number. The record below is
  one element of its list \<^verbatim>\<open>streams_data\<close> (the name is used by the parser only). The
  list \<^verbatim>\<open>stream_ids\<close> is built from the same API answer with the same filter, so it is
  the list of the ids of \<^verbatim>\<open>streams_data\<close>. \<^verbatim>\<open>datetime.min\<close> is instant 0.
\<close>

record stream_data =
  stream_id :: int
  event_time :: "datetime option"
  item_num :: int
  original_index :: nat

definition datetime_min :: datetime where
  "datetime_min = 0"

definition buffer_hours :: int where
  "buffer_hours = 2"

text \<open>
  Python's \<^verbatim>\<open>list.sort\<close> is stable; with \<^verbatim>\<open>reverse=True\<close> it sorts in descending
  order and still keeps elements with equal keys in their original order (the list is
  reversed, sorted stably, and reversed again).
\<close>

definition py_sort :: "('a \<Rightarrow> 'k::linorder) \<Rightarrow> 'a list \<Rightarrow> 'a list" where
  "py_sort key xs = sort_key key xs"

definition py_sort_reverse :: "('a \<Rightarrow> 'k::linorder) \<Rightarrow> 'a list \<Rightarrow> 'a list" where
  "py_sort_reverse key xs = rev (sort_key key (rev xs))"

text \<open>
  The sort key of the two sorts: \<^verbatim>\<open>(x['event_time'] or datetime.min, x['item_num'])\<close>.
  In the list \<^verbatim>\<open>upcoming\<close> every stream has an event time, where the key is the one the
  code writes there, \<^verbatim>\<open>(x['event_time'], x['item_num'])\<close>.
\<close>

definition time_key :: "stream_data \<Rightarrow> datetime \<times> int" where
  "time_key x = ((case event_time x of Some t \<Rightarrow> t | None \<Rightarrow> datetime_min), item_num x)"

text \<open>\<^verbatim>\<open>any(s['event_time'] for s in streams_data)\<close>; a \<^verbatim>\<open>datetime\<close> is always true.\<close>

definition has_times :: "stream_data list \<Rightarrow> bool" where
  "has_times streams_data = list_ex (\<lambda>s. event_time s \<noteq> None) streams_data"

text \<open>The test that puts a stream into \<^verbatim>\<open>upcoming\<close>: it has an event time and
  \<^verbatim>\<open>hours_diff < buffer_hours\<close>.\<close>

definition is_upcoming :: "datetime \<Rightarrow> stream_data \<Rightarrow> bool" where
  "is_upcoming now s =
     (case event_time s of
        Some t \<Rightarrow> now - t < buffer_hours * microseconds_per_hour
      | None \<Rightarrow> False)"

text \<open>The list \<^verbatim>\<open>ordered\<close> of \<^verbatim>\<open>apply_event_time_ordering_for_channels\<close>.\<close>

definition order_streams :: "datetime \<Rightarrow> stream_data list \<Rightarrow> stream_data list" where
  "order_streams now streams_data =
     (if has_times streams_data
      then (let upcoming = filter (is_upcoming now) streams_data;
                past = filter (\<lambda>s. \<not> is_upcoming now s) streams_data
            in py_sort time_key upcoming @ py_sort_reverse time_key past)
      else py_sort item_num streams_data)"

text \<open>
  The safeguard before the write. \<open>Updated ids\<close> is the call
  \<^verbatim>\<open>update_channel_streams(str(channel_id), ids, valid_stream_ids, allow_dead_streams=True)\<close>;
  the two refusals log an error and \<^verbatim>\<open>continue\<close> with the next channel.
\<close>

datatype reorder_outcome = NoChange | RefusedClear | RefusedMismatch | Updated "int list"

definition reorder_safeguard :: "int list \<Rightarrow> int list \<Rightarrow> reorder_outcome" where
  "reorder_safeguard reordered_ids stream_ids =
     (if reordered_ids \<noteq> stream_ids
      then (if reordered_ids = [] then RefusedClear
            else if set reordered_ids \<noteq> set stream_ids then RefusedMismatch
            else Updated reordered_ids)
      else NoChange)"

text \<open>The update calls an outcome stands for, and whether the loop body goes on to the
  overflow handling (which moves streams between channels) or has left with
  \<^verbatim>\<open>continue\<close>.\<close>

fun update_calls :: "reorder_outcome \<Rightarrow> int list list" where
  "update_calls (Updated ids) = [ids]"
| "update_calls NoChange = []"
| "update_calls RefusedClear = []"
| "update_calls RefusedMismatch = []"

fun reaches_overflow_handling :: "reorder_outcome \<Rightarrow> bool" where
  "reaches_overflow_handling (Updated ids) = True"
| "reaches_overflow_handling NoChange = True"
| "reaches_overflow_handling RefusedClear = False"
| "reaches_overflow_handling RefusedMismatch = False"

text \<open>
  The reordering of one channel: \<open>None\<close> when the channel has fewer than two streams (the
  loop has left with \<^verbatim>\<open>continue\<close> before any ordering).
\<close>

definition order_channel :: "datetime \<Rightarrow> stream_data list \<Rightarrow> reorder_outcome option" where
  "order_channel now streams_data =
     (let stream_ids = map stream_id streams_data in
      if length stream_ids < 2 then None
      else Some (reorder_safeguard (map stream_id (order_streams now streams_data)) stream_ids))"

text \<open>
  \<^verbatim>\<open>reorder_streams_by_event_time\<close>, the ordering of \<^verbatim>\<open>apply_event_time_ordering\<close>. Its
  input here is the list of stream ids, each with the event time parsed from the name the
  API returns for it (none when the fetch or the parse fails); \<^verbatim>\<open>original_index\<close> is the
  position in that list and \<^verbatim>\<open>item_num\<close> is not used.
\<close>

definition streams_with_times :: "(int \<times> datetime option) list \<Rightarrow> stream_data list" where
  "streams_with_times fetched =
     map (\<lambda>(idx, (sid, t)). \<lparr> stream_id = sid, event_time = t, item_num = 0, original_index = idx \<rparr>)
       (enumerate 0 fetched)"

definition reorder_streams_by_event_time :: "datetime \<Rightarrow> (int \<times> datetime option) list \<Rightarrow> int list" where
  "reorder_streams_by_event_time now fetched =
     (let with_time = filter (\<lambda>s. event_time s \<noteq> None) (streams_with_times fetched);
          without_time = filter (\<lambda>s. event_time s = None) (streams_with_times fetched);
          with_time = py_sort (\<lambda>s. (fst (time_key s), original_index s)) with_time;
          live_upcoming = filter (\<lambda>s. fst (time_key s) \<ge> now - 2 * microseconds_per_hour) with_time;
          past = filter (\<lambda>s. \<not> fst (time_key s) \<ge> now - 2 * microseconds_per_hour) with_time
      in map stream_id (live_upcoming @ past @ without_time))"

text \<open>Streams for the concrete cases; \<open>noon\<close> is the clock of the evaluation.\<close>

definition noon :: datetime where
  "noon = at_clock 12 0"

definition stream :: "int \<Rightarrow> datetime option \<Rightarrow> int \<Rightarrow> nat \<Rightarrow> stream_data" where
  "stream i t n idx = \<lparr> stream_id = i, event_time = t, item_num = n, original_index = idx \<rparr>"

text \<open>The classes of streams the statements speak of: a past event has an event time
  outside the buffer; a stream with no time has none.\<close>

definition is_past :: "datetime \<Rightarrow> stream_data \<Rightarrow> bool" where
  "is_past now s =
     (case event_time s of
        Some t \<Rightarrow> \<not> now - t < buffer_hours * microseconds_per_hour
      | None \<Rightarrow> False)"

definition has_no_time :: "stream_data \<Rightarrow> bool" where
  "has_no_time s = (event_time s = None)"

text \<open>All event times of a list lie after \<^verbatim>\<open>datetime.min\<close>, the stand-in the sort key
  uses for a missing time.\<close>

definition after_datetime_min :: "stream_data list \<Rightarrow> bool" where
  "after_datetime_min xs =
     list_all (\<lambda>s. case event_time s of Some t \<Rightarrow> datetime_min < t | None \<Rightarrow> True) xs"

text \<open>
  The classes and the sort key of \<^verbatim>\<open>reorder_streams_by_event_time\<close>: live or upcoming
  is \<^verbatim>\<open>event_time >= now - timedelta(hours=2)\<close>, past is the rest of the streams with a
  time; the key is \<^verbatim>\<open>(event_time, original_index)\<close>.
\<close>

definition is_recent :: "datetime \<Rightarrow> stream_data \<Rightarrow> bool" where
  "is_recent now s =
     (case event_time s of Some t \<Rightarrow> t \<ge> now - 2 * microseconds_per_hour | None \<Rightarrow> False)"

definition is_old :: "datetime \<Rightarrow> stream_data \<Rightarrow> bool" where
  "is_old now s =
     (case event_time s of Some t \<Rightarrow> \<not> t \<ge> now - 2 * microseconds_per_hour | None \<Rightarrow> False)"

definition index_key :: "stream_data \<Rightarrow> datetime \<times> nat" where
  "index_key s = (fst (time_key s), original_index s)"

text \<open>
  Channels for the concrete cases: one upcoming event and two streams without a time;
  two past events, a stream without a time and an upcoming event; three streams without
  a time, with item numbers 3, 2, 3. And the answer of the API for four stream ids, two
  past events, a stream without a time and an upcoming event.
\<close>

definition channel_mixed :: "stream_data list" where
  "channel_mixed =
     [stream 1 (Some (at_clock 13 0)) 1 0, stream 2 None 1 1, stream 3 None 2 2]"

definition channel_past :: "stream_data list" where
  "channel_past =
     [stream 1 (Some (at_clock 7 0)) 1 0, stream 2 (Some (at_clock 9 0)) 2 1,
      stream 3 None 999 2, stream 4 (Some (at_clock 13 0)) 4 3]"

definition channel_no_times :: "stream_data list" where
  "channel_no_times = [stream 1 None 3 0, stream 2 None 2 1, stream 3 None 3 2]"

definition fetched_sample :: "(int \<times> datetime option) list" where
  "fetched_sample =
     [(1, Some (at_clock 7 0)), (2, Some (at_clock 9 0)), (3, None), (4, Some (at_clock 13 0))]"

section \<open>Python strings\<close>

text \<open>
  A Python \<^verbatim>\<open>str\<close> is a list of characters; the embedding has the 256 characters of
  \<open>char\<close>. \<open>is_space\<close> is \<^verbatim>\<open>str.isspace\<close> on one of them (also what \<^verbatim>\<open>\s\<close> matches
  and what \<^verbatim>\<open>strip()\<close> and \<^verbatim>\<open>split()\<close> remove); \<open>is_digit\<close> is what \<^verbatim>\<open>\d\<close> matches
  and \<^verbatim>\<open>int()\<close> reads among them.
\<close>

definition is_space :: "char \<Rightarrow> bool" where
  "is_space c \<longleftrightarrow>
     c \<in> set [CHR 0x09, CHR 0x0A, CHR 0x0B, CHR 0x0C, CHR 0x0D, CHR 0x1C, CHR 0x1D, CHR 0x1E,
               CHR 0x1F, CHR 0x20, CHR 0x85, CHR 0xA0]"

definition is_digit :: "char \<Rightarrow> bool" where
  "is_digit c \<longleftrightarrow> c \<in> set ''0123456789''"

definition digit_val :: "char \<Rightarrow> nat" where
  "digit_val c = of_char c - 48"

definition nat_of_digits :: "string \<Rightarrow> nat" where
  "nat_of_digits s = foldl (\<lambda>a c. 10 * a + digit_val c) 0 s"

text \<open>\<^verbatim>\<open>s.strip()\<close>.\<close>

definition strip :: "string \<Rightarrow> string" where
  "strip s = rev (dropWhile is_space (rev (dropWhile is_space s)))"

text \<open>\<^verbatim>\<open>sub in s\<close>.\<close>

fun contains :: "string \<Rightarrow> string \<Rightarrow> bool" where
  "contains sub [] = (sub = [])"
| "contains sub (c # cs) = (take (length sub) (c # cs) = sub \<or> contains sub cs)"

text \<open>
  \<^verbatim>\<open>s.split(sep)\<close> for a non-empty separator: the pieces between the occurrences of
  \<open>sep\<close>, found from the left without overlap. \<open>skip\<close> counts the characters of an
  occurrence still to pass over; \<open>acc\<close> is the current piece, reversed.
\<close>

fun py_split_aux :: "string \<Rightarrow> nat \<Rightarrow> string \<Rightarrow> string \<Rightarrow> string list" where
  "py_split_aux sep skip acc [] = [rev acc]"
| "py_split_aux sep (Suc k) acc (c # cs) = py_split_aux sep k acc cs"
| "py_split_aux sep 0 acc (c # cs) =
     (if take (length sep) (c # cs) = sep
      then rev acc # py_split_aux sep (length sep - 1) [] cs
      else py_split_aux sep 0 (c # acc) cs)"

definition py_split :: "string \<Rightarrow> string \<Rightarrow> string list" where
  "py_split s sep = py_split_aux sep 0 [] s"

text \<open>\<^verbatim>\<open>s.split()\<close>: the maximal runs of characters that are not whitespace.\<close>

fun split_ws_aux :: "string \<Rightarrow> string \<Rightarrow> string list" where
  "split_ws_aux acc [] = (if acc = [] then [] else [rev acc])"
| "split_ws_aux acc (c # cs) =
     (if is_space c
      then (if acc = [] then split_ws_aux [] cs else rev acc # split_ws_aux [] cs)
      else split_ws_aux (c # acc) cs)"

definition split_ws :: "string \<Rightarrow> string list" where
  "split_ws s = split_ws_aux [] s"

text \<open>
  \<^verbatim>\<open>s.splitlines()\<close>: lines end at \<^verbatim>\<open>\n\<close>, \<^verbatim>\<open>\r\<close>, \<^verbatim>\<open>\r\n\<close>, \<^verbatim>\<open>\v\<close>, \<^verbatim>\<open>\f\<close>,
  \<^verbatim>\<open>\x1c\<close>, \<^verbatim>\<open>\x1d\<close>, \<^verbatim>\<open>\x1e\<close> and \<^verbatim>\<open>\x85\<close>; the line ends are dropped, and there is no
  empty last line.
\<close>

definition is_linebreak :: "char \<Rightarrow> bool" where
  "is_linebreak c \<longleftrightarrow>
     c \<in> set [CHR 0x0A, CHR 0x0B, CHR 0x0C, CHR 0x0D, CHR 0x1C, CHR 0x1D, CHR 0x1E, CHR 0x85]"

fun splitlines_aux :: "string \<Rightarrow> string \<Rightarrow> string list" where
  "splitlines_aux acc [] = (if acc = [] then [] else [rev acc])"
| "splitlines_aux acc [c] = (if is_linebreak c then [rev acc] else [rev (c # acc)])"
| "splitlines_aux acc (c # d # cs) =
     (if c = CHR 0x0D \<and> d = CHR 0x0A then rev acc # splitlines_aux [] cs
      else if is_linebreak c then rev acc # splitlines_aux [] (d # cs)
      else splitlines_aux (c # acc) (d # cs))"

definition splitlines :: "string \<Rightarrow> string list" where
  "splitlines s = splitlines_aux [] s"

text \<open>
  \<^verbatim>\<open>int(s)\<close> for a string; \<open>None\<close> is the \<^verbatim>\<open>ValueError\<close>. The whitespace \<^verbatim>\<open>int\<close> skips
  before and after the literal is narrower than that of \<^verbatim>\<open>strip()\<close>: the characters the C
  function \<^verbatim>\<open>isspace\<close> accepts, and \<^verbatim>\<open>\x85\<close> and \<^verbatim>\<open>\xa0\<close>, which are replaced by a blank
  first; the separators \<^verbatim>\<open>\x1c\<close> to \<^verbatim>\<open>\x1f\<close> are not skipped, a string with one of them
  is no literal. Between the whitespace stands an optional sign and the digits, which
  single underscores may group.

  The interpreter limits the number of digits of the literal: with the limit
  \<open>max_str_digits\<close> (\<^verbatim>\<open>sys.get_int_max_str_digits()\<close>, 4300 by default, 0 for no limit and
  in the versions that have none) a literal of more than 640 digits and more than
  \<open>max_str_digits\<close> digits is a \<^verbatim>\<open>ValueError\<close>. The limit is a parameter of every function
  that calls \<^verbatim>\<open>int\<close>.
\<close>

definition is_int_space :: "char \<Rightarrow> bool" where
  "is_int_space c \<longleftrightarrow>
     c \<in> set [CHR 0x09, CHR 0x0A, CHR 0x0B, CHR 0x0C, CHR 0x0D, CHR 0x20, CHR 0x85, CHR 0xA0]"

definition exceeds_digit_limit :: "nat \<Rightarrow> nat \<Rightarrow> bool" where
  "exceeds_digit_limit max_str_digits digits \<longleftrightarrow>
     digits > 640 \<and> max_str_digits > 0 \<and> digits > max_str_digits"

definition py_int :: "nat \<Rightarrow> string \<Rightarrow> int option" where
  "py_int max_str_digits s =
     (let t = rev (dropWhile is_int_space (rev (dropWhile is_int_space s)));
          negative = (case t of c # _ \<Rightarrow> c = CHR ''-'' | [] \<Rightarrow> False);
          body = (case t of c # r \<Rightarrow> if c = CHR ''-'' \<or> c = CHR ''+'' then r else t | [] \<Rightarrow> t);
          groups = py_split body ''_''
      in if list_all (\<lambda>g. g \<noteq> [] \<and> list_all is_digit g) groups \<and>
            \<not> exceeds_digit_limit max_str_digits (length (concat groups))
         then Some ((if negative then - 1 else 1) * int (nat_of_digits (concat groups)))
         else None)"

section \<open>Scoring (StreamCheckerService._is_stream_dead and _calculate_stream_score)\<close>

text \<open>
  An analyzed stream is a dict from field names to Python values: \<^verbatim>\<open>None\<close>, booleans,
  integers, floats (each finite float is a rational number; not-a-number and the
  infinities are not values of the embedding) and strings.
\<close>

datatype pyval = PNone | PBool bool | PInt int | PFloat rat | PStr string

type_synonym analyzed = "string \<rightharpoonup> pyval"

fun py_truthy :: "pyval \<Rightarrow> bool" where
  "py_truthy PNone = False"
| "py_truthy (PBool b) = b"
| "py_truthy (PInt n) = (n \<noteq> 0)"
| "py_truthy (PFloat r) = (r \<noteq> 0)"
| "py_truthy (PStr s) = (s \<noteq> [])"

definition dict_get :: "analyzed \<Rightarrow> string \<Rightarrow> pyval \<Rightarrow> pyval" where
  "dict_get d key dflt = (case d key of Some v \<Rightarrow> v | None \<Rightarrow> dflt)"

text \<open>The number a value is when \<^verbatim>\<open>isinstance(v, (int, float))\<close> holds; a \<^verbatim>\<open>bool\<close> is an
  \<^verbatim>\<open>int\<close> in Python.\<close>

fun as_number :: "pyval \<Rightarrow> rat option" where
  "as_number (PInt n) = Some (of_int n)"
| "as_number (PFloat r) = Some r"
| "as_number (PBool b) = Some (if b then 1 else 0)"
| "as_number PNone = None"
| "as_number (PStr s) = None"

text \<open>
  The \<^verbatim>\<open>try\<close> block of \<^verbatim>\<open>_is_stream_dead\<close> on \<^verbatim>\<open>resolution_str\<close>: true when it returns
  \<^verbatim>\<open>True\<close>; a \<^verbatim>\<open>ValueError\<close> of \<^verbatim>\<open>int\<close> is caught and passes on.
\<close>

definition zero_dimension :: "nat \<Rightarrow> string \<Rightarrow> bool" where
  "zero_dimension max_str_digits resolution_str =
     (case py_split resolution_str ''x'' of
        [w, h] \<Rightarrow>
          (case py_int max_str_digits w of
             None \<Rightarrow> False
           | Some width \<Rightarrow>
               (case py_int max_str_digits h of
                  None \<Rightarrow> False
                | Some height \<Rightarrow> width = 0 \<or> height = 0))
      | _ \<Rightarrow> False)"

text \<open>
  The resolution test. \<^verbatim>\<open>str(resolution)\<close> of a value that is not a string is the text
  of a number, \<^verbatim>\<open>True\<close> or \<^verbatim>\<open>False\<close>; it is not \<^verbatim>\<open>'0x0'\<close> and has no \<^verbatim>\<open>x\<close> in it, so
  only a string can answer true.
\<close>

definition dead_resolution :: "nat \<Rightarrow> pyval \<Rightarrow> bool" where
  "dead_resolution max_str_digits resolution =
     (if py_truthy resolution \<and> resolution \<noteq> PStr ''N/A''
      then (case resolution of
              PStr resolution_str \<Rightarrow>
                resolution_str = ''0x0'' \<or>
                (contains ''x'' resolution_str \<and> zero_dimension max_str_digits resolution_str)
            | _ \<Rightarrow> False)
      else False)"

text \<open>\<^verbatim>\<open>bitrate in [0, None, 'N/A'] or (isinstance(bitrate, (int, float)) and bitrate == 0)\<close>.\<close>

definition dead_bitrate :: "pyval \<Rightarrow> bool" where
  "dead_bitrate bitrate =
     (as_number bitrate = Some 0 \<or> bitrate = PNone \<or> bitrate = PStr ''N/A'')"

definition is_stream_dead :: "nat \<Rightarrow> analyzed \<Rightarrow> bool" where
  "is_stream_dead max_str_digits stream_data =
     (dead_resolution max_str_digits (dict_get stream_data ''resolution'' (PStr '''')) \<or>
      dead_bitrate (dict_get stream_data ''bitrate_kbps'' (PInt 0)))"

text \<open>
  \<^verbatim>\<open>_calculate_stream_score\<close>. Its first statement returns \<^verbatim>\<open>0.0\<close> for a dead stream.
  What follows that statement, the weighted sum of the bitrate, resolution, frame rate,
  codec and error scores and its rounding to two digits, is float arithmetic on the
  fields of the record and the configured weights; none of the statements proved here
  depends on it, and it is a parameter of the embedding: \<open>weighted_score\<close> maps the record
  to what that part of the body returns (\<open>Inr\<close> the float) or raises (\<open>Inl\<close>).
\<close>

definition calculate_stream_score ::
  "nat \<Rightarrow> (analyzed \<Rightarrow> 'e + rat) \<Rightarrow> analyzed \<Rightarrow> 'e + rat" where
  "calculate_stream_score max_str_digits weighted_score stream_data =
     (if is_stream_dead max_str_digits stream_data then Inr 0
      else weighted_score stream_data)"

text \<open>
  The classification of the specification, in its words: the resolution is exactly
  \<^verbatim>\<open>0x0\<close>, or it parses as \<^verbatim>\<open>WxH\<close> (two integers) and one of the two dimensions is 0,
  or the bitrate is 0 or unknown (missing, \<^verbatim>\<open>None\<close> or \<^verbatim>\<open>'N/A'\<close>).
\<close>

definition classified_dead :: "nat \<Rightarrow> analyzed \<Rightarrow> bool" where
  "classified_dead max_str_digits stream_data =
     (stream_data ''resolution'' = Some (PStr ''0x0'') \<or>
      (case stream_data ''resolution'' of
         Some (PStr s) \<Rightarrow> zero_dimension max_str_digits s
       | _ \<Rightarrow> False) \<or>
      (case stream_data ''bitrate_kbps'' of
         None \<Rightarrow> True
       | Some v \<Rightarrow> as_number v = Some 0 \<or> v = PNone \<or> v = PStr ''N/A''))"

text \<open>Analyzed streams that differ in the resolution and the bitrate only.\<close>

definition analyzed_with :: "string \<Rightarrow> pyval \<Rightarrow> analyzed" where
  "analyzed_with resolution bitrate =
     [''resolution'' \<mapsto> PStr resolution, ''bitrate_kbps'' \<mapsto> bitrate, ''fps'' \<mapsto> PFloat 30,
      ''video_codec'' \<mapsto> PStr ''h264'', ''audio_codec'' \<mapsto> PStr ''aac'',
      ''status'' \<mapsto> PStr ''OK'']"

section \<open>Python floats\<close>

text \<open>
  A Python \<^verbatim>\<open>float\<close> is a binary64 number: a finite one is a rational number, and the
  result of an operation is the exact result rounded to the nearest binary64 number, ties
  to the even significand. (The sign of a zero is not kept, and not-a-number does not
  arise here.)

  \<open>bit_length n\<close> is the number of binary digits of \<open>n\<close>, \<open>pow2 e\<close> is \<open>2\<close> to the power
  \<open>e\<close>, and \<open>floor_log2 x\<close>, for a positive \<open>x\<close>, is the exponent \<open>e\<close> with
  \<open>pow2 e \<le> x < pow2 (e + 1)\<close>.
\<close>

fun bit_length :: "nat \<Rightarrow> nat" where
  "bit_length n = (if n = 0 then 0 else Suc (bit_length (n div 2)))"

declare bit_length.simps [simp del]

definition pow2 :: "int \<Rightarrow> rat" where
  "pow2 e = (if 0 \<le> e then 2 ^ nat e else 1 / 2 ^ nat (- e))"

definition floor_log2 :: "rat \<Rightarrow> int" where
  "floor_log2 x =
     (if 1 \<le> x then int (bit_length (nat \<lfloor>x\<rfloor>)) - 1
      else - int (bit_length (nat (\<lceil>1 / x\<rceil> - 1))))"

definition round_half_even :: "rat \<Rightarrow> int" where
  "round_half_even x =
     (let f = \<lfloor>x\<rfloor>; d = x - of_int f
      in if d < 1 / 2 then f else if 1 / 2 < d then f + 1 else if even f then f else f + 1)"

text \<open>
  Rounding to binary64: 53 significant bits, so the unit in the last place of a number
  with exponent \<open>e\<close> is \<open>pow2 (e - 52)\<close>; below the exponent \<open>-1022\<close> the numbers are
  subnormal and keep the unit \<open>pow2 (-1074)\<close>; a result that rounds to \<open>pow2 1024\<close> or
  more has overflowed.
\<close>

datatype pyfloat = Finite rat | PosInf | NegInf

definition round_to_float :: "rat \<Rightarrow> pyfloat" where
  "round_to_float x =
     (if x = 0 then Finite 0
      else (let e = max (floor_log2 \<bar>x\<bar>) (- 1022);
                ulp = pow2 (e - 52);
                r = of_int (round_half_even (\<bar>x\<bar> / ulp)) * ulp
            in if pow2 1024 \<le> r then (if x < 0 then NegInf else PosInf)
               else Finite (if x < 0 then - r else r)))"

text \<open>
  The operations of \<^verbatim>\<open>get_stream_bitrate\<close>. \<^verbatim>\<open>a / b\<close> on two integers is the correctly
  rounded quotient, and an \<^verbatim>\<open>OverflowError\<close> when that is no finite float. \<^verbatim>\<open>x / d\<close> on a
  float and an integer first converts \<open>d\<close> to a float (an \<^verbatim>\<open>OverflowError\<close> when it is too
  large) and then divides as the hardware does, where an overflow gives an infinity.
  \<^verbatim>\<open>float(g)\<close> on the text of a decimal number rounds its value, to an infinity when it is
  too large.
\<close>

datatype py_exception = IndexError | OverflowError | ZeroDivisionError

definition int_truediv :: "int \<Rightarrow> int \<Rightarrow> py_exception + rat" where
  "int_truediv a b =
     (if b = 0 then Inl ZeroDivisionError
      else (case round_to_float (of_int a / of_int b) of
              Finite r \<Rightarrow> Inr r
            | _ \<Rightarrow> Inl OverflowError))"

definition float_of_int :: "int \<Rightarrow> py_exception + rat" where
  "float_of_int n =
     (case round_to_float (of_int n) of
        Finite r \<Rightarrow> Inr r
      | _ \<Rightarrow> Inl OverflowError)"

definition float_truediv_int :: "rat \<Rightarrow> int \<Rightarrow> py_exception + pyfloat" where
  "float_truediv_int x d =
     (case float_of_int d of
        Inl e \<Rightarrow> Inl e
      | Inr df \<Rightarrow> if df = 0 then Inl ZeroDivisionError else Inr (round_to_float (x / df)))"

section \<open>Bitrate detection (stream_check_utils.get_stream_bitrate)\<close>

text \<open>
  The two regular expressions of the function, each as the match anchored at the start of
  a string and the leftmost match \<^verbatim>\<open>re.search\<close> returns; the result is the text of group 1.
  In both patterns every repetition is followed by a character it cannot match itself, so
  the greedy match is the only one.

  \<^verbatim>\<open>bitrate=\s*(\d+\.?\d*)\s*kbits/s\<close>:
\<close>

definition match_progress_at :: "string \<Rightarrow> string option" where
  "match_progress_at s =
     (if take 8 s = ''bitrate=''
      then (let r1 = dropWhile is_space (drop 8 s);
                ds = takeWhile is_digit r1;
                r2 = dropWhile is_digit r1;
                dot = (case r2 of c # _ \<Rightarrow> if c = CHR ''.'' then ''.'' else [] | [] \<Rightarrow> []);
                r3 = drop (length dot) r2;
                fs = takeWhile is_digit r3;
                r4 = dropWhile is_space (dropWhile is_digit r3)
            in if ds \<noteq> [] \<and> take 7 r4 = ''kbits/s'' then Some (ds @ dot @ fs) else None)
      else None)"

fun search_progress :: "string \<Rightarrow> string option" where
  "search_progress [] = None"
| "search_progress (c # cs) =
     (case match_progress_at (c # cs) of
        Some g \<Rightarrow> Some g
      | None \<Rightarrow> search_progress cs)"

text \<open>\<^verbatim>\<open>(\d+)\s+bytes read\<close>:\<close>

definition match_bytes_at :: "string \<Rightarrow> string option" where
  "match_bytes_at s =
     (let ds = takeWhile is_digit s;
          r = dropWhile is_digit s;
          ws = takeWhile is_space r;
          r2 = dropWhile is_space r
      in if ds \<noteq> [] \<and> ws \<noteq> [] \<and> take 10 r2 = ''bytes read'' then Some ds else None)"

fun search_bytes :: "string \<Rightarrow> string option" where
  "search_bytes [] = None"
| "search_bytes (c # cs) =
     (case match_bytes_at (c # cs) of
        Some g \<Rightarrow> Some g
      | None \<Rightarrow> search_bytes cs)"

text \<open>
  \<^verbatim>\<open>float(g)\<close> for the text of group 1 of the first pattern, digits with an optional
  fraction: the float nearest to its decimal value.
\<close>

definition float_of_decimal :: "string \<Rightarrow> pyfloat" where
  "float_of_decimal g =
     (let ip = takeWhile is_digit g; fp = drop 1 (dropWhile is_digit g)
      in round_to_float (of_nat (nat_of_digits ip) + of_nat (nat_of_digits fp) / 10 ^ length fp))"

text \<open>\<^verbatim>\<open>(total_bytes * 8) / 1000 / duration\<close>: the product is an integer, the first division
  is one of integers and the second one of a float by an integer.\<close>

definition kbps_of_bytes :: "int \<Rightarrow> int \<Rightarrow> py_exception + pyfloat" where
  "kbps_of_bytes total_bytes duration =
     (case int_truediv (total_bytes * 8) 1000 of
        Inl e \<Rightarrow> Inl e
      | Inr q \<Rightarrow> float_truediv_int q duration)"

text \<open>
  The three blocks of the loop body, each giving the new value of the variable it may
  assign, or the exception that leaves the loop. Method 1 catches \<^verbatim>\<open>ValueError\<close> only:
  \<^verbatim>\<open>parts[0].strip().split()[-1]\<close> raises \<^verbatim>\<open>IndexError\<close> when nothing but whitespace stands
  before \<^verbatim>\<open>bytes read\<close>, and the division raises \<^verbatim>\<open>OverflowError\<close> for a byte count beyond
  the floats. Method 2 cannot raise. Method 3 catches \<^verbatim>\<open>ValueError\<close> and
  \<^verbatim>\<open>AttributeError\<close>, not the \<^verbatim>\<open>OverflowError\<close> of its division.
\<close>

definition method1 ::
  "nat \<Rightarrow> int \<Rightarrow> string \<Rightarrow> pyfloat option \<Rightarrow> py_exception + pyfloat option" where
  "method1 max_str_digits duration line bitrate =
     (if contains ''Statistics:'' line \<and> contains ''bytes read'' line
      then (case py_split line ''bytes read'' of
              [] \<Rightarrow> Inl IndexError
            | part0 # _ \<Rightarrow>
                (case split_ws (strip part0) of
                   [] \<Rightarrow> Inl IndexError
                 | w # ws \<Rightarrow>
                     (case py_int max_str_digits (last (w # ws)) of
                        None \<Rightarrow> Inr bitrate
                      | Some total_bytes \<Rightarrow>
                          if total_bytes > 0 \<and> duration > 0
                          then (case kbps_of_bytes total_bytes duration of
                                  Inl e \<Rightarrow> Inl e
                                | Inr b \<Rightarrow> Inr (Some b))
                          else Inr bitrate)))
      else Inr bitrate)"

definition method2 :: "string \<Rightarrow> pyfloat option \<Rightarrow> pyfloat option" where
  "method2 line progress_bitrate =
     (if contains ''bitrate='' line \<and> contains ''kbits/s'' line
      then (case search_progress line of
              Some g \<Rightarrow> Some (float_of_decimal g)
            | None \<Rightarrow> progress_bitrate)
      else progress_bitrate)"

definition method3 ::
  "nat \<Rightarrow> int \<Rightarrow> string \<Rightarrow> pyfloat option \<Rightarrow> py_exception + pyfloat option" where
  "method3 max_str_digits duration line bitrate =
     (if bitrate = None \<and> contains ''bytes read'' line \<and> \<not> contains ''Statistics:'' line
      then (case search_bytes line of
              Some g \<Rightarrow>
                (case py_int max_str_digits g of
                   None \<Rightarrow> Inr bitrate
                 | Some total_bytes \<Rightarrow>
                     if total_bytes > 0 \<and> duration > 0
                     then (case kbps_of_bytes total_bytes duration of
                             Inl e \<Rightarrow> Inl e
                           | Inr b \<Rightarrow> Inr (Some b))
                     else Inr bitrate)
            | None \<Rightarrow> Inr bitrate)
      else Inr bitrate)"

text \<open>
  The loop over the lines and the fallback after it. The result is the pair
  \<^verbatim>\<open>(bitrate, status)\<close>. When a line raises, the outer handler sets the status
  \<^verbatim>\<open>"Error"\<close> and the function returns the value the variable \<^verbatim>\<open>bitrate\<close> has at that
  moment, without the fallback to the progress bitrate.
\<close>

fun scan_lines ::
  "nat \<Rightarrow> int \<Rightarrow> string list \<Rightarrow> pyfloat option \<Rightarrow> pyfloat option \<Rightarrow> pyfloat option \<times> string" where
  "scan_lines max_str_digits duration [] bitrate progress_bitrate =
     ((case bitrate of None \<Rightarrow> progress_bitrate | Some b \<Rightarrow> Some b), ''OK'')"
| "scan_lines max_str_digits duration (line # rest) bitrate progress_bitrate =
     (case method1 max_str_digits duration line bitrate of
        Inl e \<Rightarrow> (bitrate, ''Error'')
      | Inr bitrate1 \<Rightarrow>
          (let progress_bitrate2 = method2 line progress_bitrate
           in case method3 max_str_digits duration line bitrate1 of
                Inl e \<Rightarrow> (bitrate1, ''Error'')
              | Inr bitrate3 \<Rightarrow>
                  scan_lines max_str_digits duration rest bitrate3 progress_bitrate2))"

text \<open>
  What \<^verbatim>\<open>subprocess.run\<close> of ffmpeg gives: the text of its standard error, a timeout, or
  another exception. The elapsed time of the result triple is left out.
\<close>

datatype ffmpeg_run = Completed string | TimeoutExpired | Failed

definition get_stream_bitrate :: "nat \<Rightarrow> ffmpeg_run \<Rightarrow> int \<Rightarrow> pyfloat option \<times> string" where
  "get_stream_bitrate max_str_digits run duration =
     (case run of
        Completed output \<Rightarrow> scan_lines max_str_digits duration (splitlines output) None None
      | TimeoutExpired \<Rightarrow> (None, ''Timeout'')
      | Failed \<Rightarrow> (None, ''Error''))"

subsection \<open>Notions used in the statements about the bitrate\<close>

text \<open>
  What one line contributes when no bitrate is set: the value method 1 computes from a
  Statistics line, or that it raises there; the value method 3 computes from an untagged
  bytes-read line, or that it raises there; the value method 2 reads from a progress
  line.
\<close>

definition statistics_value :: "nat \<Rightarrow> int \<Rightarrow> string \<Rightarrow> pyfloat option" where
  "statistics_value max_str_digits duration line =
     (case method1 max_str_digits duration line None of Inr v \<Rightarrow> v | Inl e \<Rightarrow> None)"

definition statistics_raises :: "nat \<Rightarrow> int \<Rightarrow> string \<Rightarrow> bool" where
  "statistics_raises max_str_digits duration line = isl (method1 max_str_digits duration line None)"

definition untagged_value :: "nat \<Rightarrow> int \<Rightarrow> string \<Rightarrow> pyfloat option" where
  "untagged_value max_str_digits duration line =
     (case method3 max_str_digits duration line None of Inr v \<Rightarrow> v | Inl e \<Rightarrow> None)"

definition untagged_raises :: "nat \<Rightarrow> int \<Rightarrow> string \<Rightarrow> bool" where
  "untagged_raises max_str_digits duration line = isl (method3 max_str_digits duration line None)"

definition progress_value :: "string \<Rightarrow> pyfloat option" where
  "progress_value line = method2 line None"

text \<open>
  The order of precedence. \<open>bytes_bitrate\<close> is what the two byte counts give: the last
  Statistics value; failing that the first untagged bytes-read value. \<open>last_progress\<close> is
  the last progress value, and \<open>detected_bitrate\<close> takes it when the byte counts give
  nothing.
\<close>

definition bytes_bitrate :: "nat \<Rightarrow> int \<Rightarrow> string list \<Rightarrow> pyfloat option" where
  "bytes_bitrate max_str_digits duration lines =
     (case rev (List.map_filter (statistics_value max_str_digits duration) lines) of
        s # _ \<Rightarrow> Some s
      | [] \<Rightarrow>
          (case List.map_filter (untagged_value max_str_digits duration) lines of
             u # _ \<Rightarrow> Some u
           | [] \<Rightarrow> None))"

definition last_progress :: "string list \<Rightarrow> pyfloat option" where
  "last_progress lines =
     (case rev (List.map_filter progress_value lines) of
        p # _ \<Rightarrow> Some p
      | [] \<Rightarrow> None)"

definition detected_bitrate :: "nat \<Rightarrow> int \<Rightarrow> string list \<Rightarrow> pyfloat option" where
  "detected_bitrate max_str_digits duration lines =
     (case bytes_bitrate max_str_digits duration lines of
        Some b \<Rightarrow> Some b
      | None \<Rightarrow> last_progress lines)"

text \<open>
  A line raises, coming after the lines \<open>before\<close>, when method 1 raises on it, or when
  method 3 raises on it and the lines before it have given no bitrate. \<open>lines_before_raise\<close>
  is the part of the output before the first line that raises, \<open>None\<close> when no line does.
\<close>

definition line_raises :: "nat \<Rightarrow> int \<Rightarrow> string list \<Rightarrow> string \<Rightarrow> bool" where
  "line_raises max_str_digits duration before line \<longleftrightarrow>
     statistics_raises max_str_digits duration line \<or>
     (untagged_raises max_str_digits duration line \<and>
      bytes_bitrate max_str_digits duration before = None)"

fun lines_before_raise_from ::
  "nat \<Rightarrow> int \<Rightarrow> string list \<Rightarrow> string list \<Rightarrow> string list option" where
  "lines_before_raise_from max_str_digits duration before [] = None"
| "lines_before_raise_from max_str_digits duration before (line # rest) =
     (if line_raises max_str_digits duration before line then Some before
      else lines_before_raise_from max_str_digits duration (before @ [line]) rest)"

definition lines_before_raise :: "nat \<Rightarrow> int \<Rightarrow> string list \<Rightarrow> string list option" where
  "lines_before_raise max_str_digits duration lines =
     lines_before_raise_from max_str_digits duration [] lines"

text \<open>Lines of ffmpeg output for the concrete cases; in the last one nothing stands before
  \<^verbatim>\<open>bytes read\<close>.\<close>

definition line_progress :: string where
  "line_progress =
     ''frame=  750 fps= 25 q=-1.0 size=   15000kB time=00:00:30.00 bitrate=4000.0kbits/s speed=1.0x''"

definition line_statistics :: string where
  "line_statistics = ''Statistics: 18000000 bytes read; 0 seeks''"

definition line_untagged :: string where
  "line_untagged = ''[debug] 18000000 bytes read from input''"

definition line_no_count :: string where
  "line_no_count = '' bytes read Statistics:''"

text \<open>Outputs made of these lines, each line ended by a newline.\<close>

definition output_progress_untagged :: string where
  "output_progress_untagged = line_progress @ [CHR 0x0A] @ line_untagged @ [CHR 0x0A]"

definition output_progress_statistics :: string where
  "output_progress_statistics = line_progress @ [CHR 0x0A] @ line_statistics @ [CHR 0x0A]"

definition output_progress_only :: string where
  "output_progress_only = line_progress @ [CHR 0x0A]"

definition output_raising :: string where
  "output_raising =
     line_progress @ [CHR 0x0A] @ line_no_count @ [CHR 0x0A] @ line_statistics @ [CHR 0x0A]"

chapter \<open>Verified properties\<close>

section \<open>Work queue\<close>

lemma add_channel_blocked:
  "channel_id \<in> queued q \<union> in_progress q \<union> completed q \<Longrightarrow>
   add_channel q channel_id priority = (False, q)"
  by (auto simp: add_channel_def)

lemma add_channel_success_queued:
  "add_channel q c p = (True, q') \<Longrightarrow> c \<in> queued q'"
  by (auto simp: add_channel_def split: if_splits option.splits)

text \<open>
  Claim C3. When the channel id is already in the queued, in-progress or completed set,
  \<^verbatim>\<open>add_channel\<close> returns \<^verbatim>\<open>False\<close> and the whole queue object (queue contents, the
  three sets, the failure map, the counters) is the one before the call; a second call,
  with any priority, does the same again.
\<close>

theorem C3_add_channel_dedup:
  assumes "channel_id \<in> queued q \<or> channel_id \<in> in_progress q \<or> channel_id \<in> completed q"
  shows "add_channel q channel_id priority = (False, q) \<and>
         add_channel (snd (add_channel q channel_id priority)) channel_id priority' = (False, q)"
proof -
  from assms have m: "channel_id \<in> queued q \<union> in_progress q \<union> completed q" by blast
  have a: "add_channel q channel_id priority = (False, q)"
    by (rule add_channel_blocked [OF m])
  have "add_channel (snd (add_channel q channel_id priority)) channel_id priority' = (False, q)"
    by (simp add: a add_channel_blocked [OF m])
  with a show ?thesis by simp
qed

theorem C3_add_channel_dedup_witness:
  "(7 \<in> queued (snd (add_channel (init_queue 1000) 7 10)) \<or>
    7 \<in> in_progress (snd (add_channel (init_queue 1000) 7 10)) \<or>
    7 \<in> completed (snd (add_channel (init_queue 1000) 7 10))) \<and>
   add_channel (snd (add_channel (init_queue 1000) 7 10)) 7 5 =
     (False, snd (add_channel (init_queue 1000) 7 10)) \<and>
   add_channel (snd (add_channel (snd (add_channel (init_queue 1000) 7 10)) 7 5)) 7 0 =
     (False, snd (add_channel (init_queue 1000) 7 10))"
proof -
  have h: "7 \<in> queued (snd (add_channel (init_queue 1000) 7 10)) \<or>
    7 \<in> in_progress (snd (add_channel (init_queue 1000) 7 10)) \<or>
    7 \<in> completed (snd (add_channel (init_queue 1000) 7 10))"
    by (simp add: add_channel_def init_queue_def queue_put_def)
  from C3_add_channel_dedup [OF h, of 5 0] h show ?thesis by blast
qed

text \<open>
  The head of the stored list is what \<^verbatim>\<open>get_next_channel\<close> returns, whatever the
  priorities in the list are.
\<close>

lemma get_next_channel_head:
  "queue q = (p, c) # rest \<Longrightarrow> fst (get_next_channel q) = Some c"
  by (simp add: get_next_channel_def)

text \<open>
  Claim C2 says that a lower priority value is dequeued before a higher one present at
  the same time. On the code this fails: channel 1 is enqueued with priority 10 (the value
  \<^verbatim>\<open>_queue_updated_channels\<close> uses), then channel 2 with priority 5 (the value
  \<^verbatim>\<open>_queue_all_channels\<close> uses, under the comment "higher priority for global checks");
  both are in the queue, and the first dequeue returns channel 1.
\<close>

theorem C2_priority_ignored:
  "run_queue (init_queue 1000) [Enqueue 1 10, Enqueue 2 5, Dequeue, Dequeue] = [Some 1, Some 2]"
  by (simp add: add_channel_def init_queue_def queue_put_def get_next_channel_def)

section \<open>Update tracker\<close>

subsection \<open>The dict operations\<close>

lemma map_of_dict_set: "map_of (dict_set kvs k v) = (map_of kvs)(k \<mapsto> v)"
  by (induction kvs) (auto simp: fun_upd_twist)

lemma map_fst_dict_set:
  "map fst (dict_set kvs k v) = (if k \<in> fst ` set kvs then map fst kvs else map fst kvs @ [k])"
  by (induction kvs) force+

lemma distinct_dict_set: "distinct (map fst kvs) \<Longrightarrow> distinct (map fst (dict_set kvs k v))"
  by (simp add: map_fst_dict_set)

lemma mark_channel_updated_entry:
  "map_of (channels (mark_channel_updated t now c ts sc)) =
     (map_of (channels t))(c \<mapsto> updated_fields (case ts of None \<Rightarrow> now | Some x \<Rightarrow> x) sc
                               (kept_checked (map_of (channels t) c)))"
  by (auto simp: mark_channel_updated_def map_of_dict_set updated_fields_def kept_checked_def Let_def
      split: option.splits)

lemma kept_checked_updated [simp]: "kept_checked (Some (updated_fields ts sc chk)) = chk"
  by (simp add: kept_checked_def updated_fields_def entry_get_def)

lemma mark_channels_loop_step:
  "mark_channels_loop chans ts counts (c # rest) =
     mark_channels_loop (dict_set chans c (updated_fields ts (counts c) (kept_checked (map_of chans c))))
       ts counts rest"
  by (auto simp: updated_fields_def kept_checked_def Let_def split: option.splits)

lemma mark_channels_loop_entry:
  "map_of (mark_channels_loop chans ts counts ids) c =
     (if c \<in> set ids then Some (updated_fields ts (counts c) (kept_checked (map_of chans c)))
      else map_of chans c)"
proof (induction ids arbitrary: chans)
  case Nil
  then show ?case by simp
next
  case (Cons a ids)
  show ?case
    unfolding mark_channels_loop_step Cons.IH
    by (auto simp: map_of_dict_set)
qed

lemma dom_updated_fields:
  "dom (updated_fields ts sc chk) = {''last_update'', ''needs_check'', ''stream_count'', ''checked_stream_ids''}"
  by (auto simp: updated_fields_def split: if_splits)

lemma room_Nil: "room mx [] ids = claimed_upto mx ids"
  by (auto simp: room_def claimed_upto_def max_def split: option.splits)

lemma set_room: "set (room mx acc ids) \<subseteq> set ids"
  by (auto simp: room_def split: option.splits if_splits dest: in_set_takeD)

lemma clear_loop_char:
  "distinct (map fst items) \<Longrightarrow>
   clear_loop ts mx items acc =
     (map (\<lambda>(k, info). if k \<in> set (room mx acc (map fst (filter (\<lambda>(k, info). flagged info) items)))
                        then (k, cleared ts info) else (k, info)) items,
      acc @ room mx acc (map fst (filter (\<lambda>(k, info). flagged info) items)))"
proof (induction items arbitrary: acc)
  case Nil
  then show ?case by (simp add: room_def split: option.splits)
next
  case (Cons a items)
  obtain k info where a: "a = (k, info)" by (cases a)
  from Cons.prems a have d: "distinct (map fst items)" and kn: "k \<notin> fst ` set items" by auto
  let ?F = "map fst (filter (\<lambda>(k, info). flagged info) items)"
  have sub: "set ?F \<subseteq> fst ` set items" by auto
  show ?case
  proof (cases "flagged info")
    case False
    have "k \<notin> set (room mx acc ?F)"
      using kn sub set_room [of mx acc ?F] by blast
    with False show ?thesis
      using Cons.IH [OF d, of acc] a by (simp add: flagged_def)
  next
    case True
    show ?thesis
    proof (cases "limit_reached mx (acc @ [k])")
      case lr: True
      then obtain m where m: "mx = Some m" "m \<noteq> 0" "m \<le> int (length acc) + 1"
        by (auto simp: limit_reached_def split: option.splits)
      have e: "max (Suc 0) (nat m - length acc) = Suc 0"
        using m(3) by (simp add: max_def) linarith
      have r: "room mx acc (k # ?F) = [k]"
        using m(1,2) by (simp add: room_def e)
      have "\<forall>x \<in> set items. fst x \<noteq> k" using kn by force
      then have same: "map (\<lambda>(k', info). if k' \<in> set [k] then (k', cleared ts info) else (k', info)) items = items"
        by (induction items) auto
      show ?thesis using True lr a r same
        by (simp add: flagged_def cleared_def Let_def)
    next
      case nlr: False
      have r: "room mx acc (k # ?F) = k # room mx (acc @ [k]) ?F"
      proof (cases mx)
        case None
        then show ?thesis by (simp add: room_def)
      next
        case (Some m)
        show ?thesis
        proof (cases "m = 0")
          case True
          with Some show ?thesis by (simp add: room_def)
        next
          case False
          with nlr Some have big: "int (length acc) + 1 < m"
            by (simp add: limit_reached_def)
          then have e1: "max (Suc 0) (nat m - length acc) = Suc (nat m - Suc (length acc))"
            by (simp add: max_def) linarith
          from big have e2: "max (Suc 0) (nat m - length (acc @ [k])) = nat m - Suc (length acc)"
            by (simp add: max_def)
          show ?thesis using Some False by (simp add: room_def e1 e2 del: length_append)
        qed
      qed
      have "\<forall>x \<in> set items. fst x \<noteq> k" using kn by force
      then have same: "map (\<lambda>(k', info). if k' \<in> set (k # room mx (acc @ [k]) ?F) then (k', cleared ts info) else (k', info)) items
          = map (\<lambda>(k', info). if k' \<in> set (room mx (acc @ [k]) ?F) then (k', cleared ts info) else (k', info)) items"
        by (intro map_cong) auto
      show ?thesis using True nlr a r same Cons.IH [OF d, of "acc @ [k]"]
        by (simp add: flagged_def cleared_def Let_def)
    qed
  qed
qed

lemma get_channels_needing_check_flagged:
  "get_channels_needing_check t = map fst (filter (\<lambda>(k, info). flagged info) (channels t))"
  by (simp add: get_channels_needing_check_def flagged_def)

lemma get_and_clear_char:
  assumes "distinct (map fst (channels t))"
  shows "get_and_clear_channels_needing_check t now mx =
      (claimed_upto mx (get_channels_needing_check t),
       t\<lparr> channels := map (\<lambda>(k, info).
              if k \<in> set (claimed_upto mx (get_channels_needing_check t))
              then (k, cleared now info) else (k, info)) (channels t) \<rparr>)"
  by (simp add: get_and_clear_channels_needing_check_def clear_loop_char [OF assms]
        room_Nil get_channels_needing_check_flagged)

lemma set_claimed_upto: "set (claimed_upto mx ids) \<subseteq> set ids"
  by (auto simp: claimed_upto_def split: option.splits if_splits dest: in_set_takeD)

lemma distinct_claimed_upto: "distinct ids \<Longrightarrow> distinct (claimed_upto mx ids)"
  by (auto simp: claimed_upto_def split: option.splits)

lemma distinct_needing_check:
  "distinct (map fst (channels t)) \<Longrightarrow> distinct (get_channels_needing_check t)"
  by (simp add: get_channels_needing_check_def distinct_map_filter)

lemma needs_check_iff:
  assumes "distinct (map fst (channels t))"
  shows "needs_check t c \<longleftrightarrow> c \<in> set (get_channels_needing_check t)"
proof -
  have "\<And>items. distinct (map fst items) \<Longrightarrow>
      (case map_of items c of Some info \<Rightarrow> flagged info | None \<Rightarrow> False)
      \<longleftrightarrow> c \<in> fst ` {x \<in> set items. case x of (k, info) \<Rightarrow> flagged info}"
  proof -
    fix items :: "(int \<times> entry) list"
    show "distinct (map fst items) \<Longrightarrow>
      (case map_of items c of Some info \<Rightarrow> flagged info | None \<Rightarrow> False)
      \<longleftrightarrow> c \<in> fst ` {x \<in> set items. case x of (k, info) \<Rightarrow> flagged info}"
      by (induction items) (force split: option.splits)+
  qed
  from this [OF assms, unfolded flagged_def] show ?thesis
    by (simp add: needs_check_def get_channels_needing_check_def)
qed

lemma map_of_map_cleared:
  "map_of (map (\<lambda>(k, info). if k \<in> S then (k, f info) else (k, info)) items) c =
   map_option (\<lambda>info. if c \<in> S then f info else info) (map_of items c)"
  by (induction items) auto

lemma not_flagged_cleared [simp]: "\<not> flagged (cleared ts info)"
  by (simp add: flagged_def cleared_def entry_get_def)

lemma map_fst_map_cleared:
  "map fst (map (\<lambda>(k, info). if k \<in> S then (k, f info) else (k, info)) items) = map fst items"
  by (induction items) auto

lemma claim_step:
  assumes d: "distinct (map fst (channels t))"
      and g: "get_and_clear_channels_needing_check t now mx = (out, t')"
  shows "distinct (map fst (channels t'))"
    and "distinct out"
    and "needs_check t' c \<longleftrightarrow> needs_check t c \<and> c \<notin> set out"
    and "c \<in> set out \<Longrightarrow> needs_check t c"
proof -
  from g get_and_clear_char [OF d, of now mx]
  have out: "out = claimed_upto mx (get_channels_needing_check t)"
    and t': "t' = t\<lparr> channels := map (\<lambda>(k, info).
              if k \<in> set out then (k, cleared now info) else (k, info)) (channels t) \<rparr>"
    by auto
  show "distinct (map fst (channels t'))" using d by (simp add: t' map_fst_map_cleared del: map_map)
  show "distinct out" using d by (simp add: out distinct_claimed_upto distinct_needing_check)
  show "c \<in> set out \<Longrightarrow> needs_check t c"
    using set_claimed_upto [of mx "get_channels_needing_check t"] needs_check_iff [OF d, of c]
    by (auto simp: out)
  show "needs_check t' c \<longleftrightarrow> needs_check t c \<and> c \<notin> set out"
    by (cases "map_of (channels t) c")
       (auto simp: needs_check_def t' map_of_map_cleared flagged_def [symmetric])
qed

lemma mark_step:
  "needs_check (mark_channel_updated t now c' ts sc) c \<longleftrightarrow> c = c' \<or> needs_check t c"
  by (auto simp: needs_check_def mark_channel_updated_entry updated_fields_def entry_get_def)

lemma mark_distinct:
  "distinct (map fst (channels t)) \<Longrightarrow>
   distinct (map fst (channels (mark_channel_updated t now c ts sc)))"
  by (auto simp: mark_channel_updated_def Let_def distinct_dict_set split: option.splits)

lemma mark_many_step:
  "needs_check (mark_channels_updated t now ids ts counts) c \<longleftrightarrow> c \<in> set ids \<or> needs_check t c"
  by (auto simp: needs_check_def mark_channels_updated_def mark_channels_loop_entry
        updated_fields_def entry_get_def)

lemma mark_channels_loop_distinct:
  "distinct (map fst chans) \<Longrightarrow> distinct (map fst (mark_channels_loop chans ts counts ids))"
proof (induction ids arbitrary: chans)
  case Nil
  then show ?case by simp
next
  case (Cons a ids)
  show ?case
    unfolding mark_channels_loop_step
    by (rule Cons.IH) (rule distinct_dict_set [OF Cons.prems])
qed

lemma mark_many_distinct:
  "distinct (map fst (channels t)) \<Longrightarrow>
   distinct (map fst (channels (mark_channels_updated t now ids ts counts)))"
  by (simp add: mark_channels_updated_def mark_channels_loop_distinct)

text \<open>The end of a check clears the flag too, whether or not a claim call has returned the
  channel since it was last flagged.\<close>

lemma mark_channel_checked_clears_flag:
  "\<not> needs_check (mark_channel_checked t now c ts sc ids) c"
  by (auto simp: needs_check_def mark_channel_checked_def map_of_dict_set entry_get_def Let_def
        split: option.splits)

lemma count_list_distinct: "distinct xs \<Longrightarrow> count_list xs c = (if c \<in> set xs then 1 else 0)"
  by (induction xs) auto

lemma count_list_append': "count_list (xs @ ys) c = count_list xs c + count_list ys c"
  by (induction xs) auto

lemma exactly_once:
  "distinct (map fst (channels t)) \<Longrightarrow> run_tracker t ops = (outs, t') \<Longrightarrow>
   count_list (concat outs) c + pending t' c = pending t c + times_flagged t ops c"
proof (induction t ops arbitrary: outs t' rule: run_tracker.induct)
  case (1 t)
  then show ?case by simp
next
  case (2 t now channel_id timestamp stream_count ops)
  from 2 show ?case
    by (auto simp: mark_distinct pending_def mark_step)
next
  case (3 t now channel_ids timestamp stream_counts ops)
  from 3 show ?case
    by (auto simp: mark_many_distinct pending_def mark_step mark_many_step)
next
  case (4 t now max_channels ops)
  obtain out t1 where g: "get_and_clear_channels_needing_check t now max_channels = (out, t1)"
    by (cases "get_and_clear_channels_needing_check t now max_channels")
  obtain outs1 t2 where r: "run_tracker t1 ops = (outs1, t2)"
    by (cases "run_tracker t1 ops")
  from "4.prems" g r have o: "outs = out # outs1" "t' = t2" by auto
  note cs = claim_step [OF "4.prems"(1) g]
  have ih: "count_list (concat outs1) c + pending t2 c = pending t1 c + times_flagged t1 ops c"
    using "4.IH" [OF g [symmetric] cs(1) r] .
  have "count_list out c + pending t1 c = pending t c"
    using cs(3) [of c] cs(4) [of c] by (auto simp: pending_def count_list_distinct [OF cs(2)])
  with ih show ?case by (simp add: o g count_list_append')
qed

subsection \<open>Claim C1: the atomic claim call\<close>

text \<open>
  Claim C1 says that for every bound \<^verbatim>\<open>max\<close> the call returns the flagged ids, up to
  \<^verbatim>\<open>max\<close> of them. With \<^verbatim>\<open>max_channels = 0\<close> the loop's test
  \<^verbatim>\<open>max_channels and ...\<close> is false, so the call returns every flagged id: here two
  ids, more than the bound 0.
\<close>

theorem C1_zero_bound_counterexample:
  "fst (get_and_clear_channels_needing_check tracker_three ''2025-11-21T10:00:00'' (Some 0)) = [1, 2] \<and>
   \<not> int (length (fst (get_and_clear_channels_needing_check tracker_three
                           ''2025-11-21T10:00:00'' (Some 0)))) \<le> 0"
  by (simp add: get_and_clear_channels_needing_check_def tracker_three_def entry_get_def
        limit_reached_def)

text \<open>
  Claim C1, amended. For a tracker whose channel dict has each key once (as a dict has):
  the call returns the flagged channel ids in dict order, all of them when
  \<^verbatim>\<open>max_channels\<close> is \<^verbatim>\<open>None\<close> or \<^verbatim>\<open>0\<close> and the first \<^verbatim>\<open>max_channels\<close> of them when it
  is positive (\<open>claimed_upto\<close>); in the same call every returned channel gets
  \<^verbatim>\<open>needs_check = False\<close> and \<^verbatim>\<open>queued_at = now\<close>, and nothing else in the tracker
  changes. Consequently, along every serialized run of mark-updated events and claim calls
  and for every channel \<open>c\<close>: the number of times \<open>c\<close> appears in the results of the
  claim calls, plus one if \<open>c\<close> is still flagged at the end, equals one if \<open>c\<close> was
  flagged at the start plus the number of events that flagged it anew. So each flagging
  is answered by exactly one claim result, or is still pending; none is lost and none is
  returned twice.
\<close>

theorem C1_claim_and_clear:
  assumes "distinct (map fst (channels t))"
  shows "get_and_clear_channels_needing_check t now max_channels =
           (claimed_upto max_channels (get_channels_needing_check t),
            t\<lparr> channels :=
                 map (\<lambda>(channel_id, info).
                        if channel_id \<in> set (claimed_upto max_channels (get_channels_needing_check t))
                        then (channel_id,
                              info(''needs_check'' \<mapsto> VBool False, ''queued_at'' \<mapsto> VStr now))
                        else (channel_id, info))
                     (channels t) \<rparr>) \<and>
         (case run_tracker t ops of
            (outs, t') \<Rightarrow>
              count_list (concat outs) c + pending t' c = pending t c + times_flagged t ops c)"
proof -
  obtain outs t' where r: "run_tracker t ops = (outs, t')"
    by (cases "run_tracker t ops")
  from exactly_once [OF assms r, of c] r
    get_and_clear_char [OF assms, of now max_channels, unfolded cleared_def]
  show ?thesis by simp
qed

theorem C1_claim_and_clear_witness:
  "distinct (map fst (channels tracker_three)) \<and>
   fst (get_and_clear_channels_needing_check tracker_three ''2025-11-21T10:00:00'' (Some 1)) = [1] \<and>
   (case run_tracker tracker_three
           [Claim ''2025-11-21T10:00:00'' (Some 1),
            MarkUpdated ''2025-11-21T10:01:00'' 1 None (Some 4),
            MarkMany ''2025-11-21T10:01:30'' [1, 3] None None,
            Claim ''2025-11-21T10:02:00'' None] of
      (outs, t') \<Rightarrow> count_list (concat outs) 1 + pending t' 1 = 2)"
proof -
  have d: "distinct (map fst (channels tracker_three))"
    by (simp add: tracker_three_def)
  have g: "get_channels_needing_check tracker_three = [1, 2]"
    by (simp add: get_channels_needing_check_def tracker_three_def entry_get_def)
  have p: "pending tracker_three 1 = 1"
    by (simp add: pending_def needs_check_def tracker_three_def entry_get_def)
  have c1: "get_and_clear_channels_needing_check tracker_three ''2025-11-21T10:00:00'' (Some 1) =
     ([1], \<lparr> channels =
              [(1, [''needs_check'' \<mapsto> VBool False, ''queued_at'' \<mapsto> VStr ''2025-11-21T10:00:00'']),
               (2, [''needs_check'' \<mapsto> VBool True, ''last_check'' \<mapsto> VStr ''2025-11-20T03:00:00'']),
               (3, [''needs_check'' \<mapsto> VBool False])],
             last_global_check = None \<rparr>)"
    by (simp add: get_and_clear_channels_needing_check_def tracker_three_def entry_get_def
          limit_reached_def)
  have f: "times_flagged tracker_three
           [Claim ''2025-11-21T10:00:00'' (Some 1),
            MarkUpdated ''2025-11-21T10:01:00'' 1 None (Some 4),
            MarkMany ''2025-11-21T10:01:30'' [1, 3] None None,
            Claim ''2025-11-21T10:02:00'' None] 1 = 1"
    by (simp add: c1 needs_check_def mark_channel_updated_def mark_channels_updated_def entry_get_def)
  note T = C1_claim_and_clear [OF d, where now = "''2025-11-21T10:00:00''"
       and max_channels = "Some 1" and c = 1 and ops =
       "[Claim ''2025-11-21T10:00:00'' (Some 1),
            MarkUpdated ''2025-11-21T10:01:00'' 1 None (Some 4),
            MarkMany ''2025-11-21T10:01:30'' [1, 3] None None,
            Claim ''2025-11-21T10:02:00'' None]"]
  from T [THEN conjunct1]
  have "fst (get_and_clear_channels_needing_check tracker_three ''2025-11-21T10:00:00'' (Some 1)) =
        claimed_upto (Some 1) (get_channels_needing_check tracker_three)"
    by (simp only: fst_conv)
  then have a: "fst (get_and_clear_channels_needing_check tracker_three ''2025-11-21T10:00:00'' (Some 1)) = [1]"
    by (simp add: g claimed_upto_def)
  from T [THEN conjunct2] have b: "(case run_tracker tracker_three
           [Claim ''2025-11-21T10:00:00'' (Some 1),
            MarkUpdated ''2025-11-21T10:01:00'' 1 None (Some 4),
            MarkMany ''2025-11-21T10:01:30'' [1, 3] None None,
            Claim ''2025-11-21T10:02:00'' None] of
      (outs, t') \<Rightarrow> count_list (concat outs) 1 + pending t' 1 = 2)"
    by (simp only: p f one_add_one)
  from d a b show ?thesis by (intro conjI)
qed

subsection \<open>Claim C9: what a mark-updated event keeps of an entry\<close>

text \<open>
  Claim C9. For a channel that has an entry \<open>info\<close>, \<^verbatim>\<open>mark_channel_updated\<close> leaves as
  its entry exactly the four fields \<^verbatim>\<open>last_update\<close>, \<^verbatim>\<open>needs_check = True\<close>,
  \<^verbatim>\<open>stream_count\<close> and \<^verbatim>\<open>checked_stream_ids\<close>, the last one taken from \<open>info\<close>;
  \<^verbatim>\<open>last_check\<close>, \<^verbatim>\<open>queued_at\<close> and \<^verbatim>\<open>force_check\<close> are no longer keys of the entry, and
  \<^verbatim>\<open>should_force_check\<close> then answers \<^verbatim>\<open>False\<close>, whatever \<open>info\<close> held. The same holds
  for every id in the list given to \<^verbatim>\<open>mark_channels_updated\<close>.
\<close>

theorem C9_mark_updated_replaces_entry:
  assumes "map_of (channels t) channel_id = Some info"
      and "channel_id \<in> set channel_ids"
  shows "map_of (channels (mark_channel_updated t now channel_id timestamp stream_count)) channel_id =
           Some [''last_update'' \<mapsto> VStr (case timestamp of None \<Rightarrow> now | Some ts \<Rightarrow> ts),
                 ''needs_check'' \<mapsto> VBool True,
                 ''stream_count'' \<mapsto> opt_int stream_count,
                 ''checked_stream_ids'' \<mapsto> entry_get info ''checked_stream_ids'' (VList [])] \<and>
         should_force_check (mark_channel_updated t now channel_id timestamp stream_count) channel_id
           = VBool False \<and>
         map_of (channels (mark_channels_updated t now channel_ids timestamp stream_counts)) channel_id =
           Some [''last_update'' \<mapsto> VStr (case timestamp of None \<Rightarrow> now | Some ts \<Rightarrow> ts),
                 ''needs_check'' \<mapsto> VBool True,
                 ''stream_count'' \<mapsto>
                    opt_int ((case stream_counts of None \<Rightarrow> Map.empty | Some m \<Rightarrow> m) channel_id),
                 ''checked_stream_ids'' \<mapsto> entry_get info ''checked_stream_ids'' (VList [])] \<and>
         should_force_check (mark_channels_updated t now channel_ids timestamp stream_counts) channel_id
           = VBool False \<and>
         dom [''last_update'' \<mapsto> VStr (case timestamp of None \<Rightarrow> now | Some ts \<Rightarrow> ts),
              ''needs_check'' \<mapsto> VBool True,
              ''stream_count'' \<mapsto> opt_int stream_count,
              ''checked_stream_ids'' \<mapsto> entry_get info ''checked_stream_ids'' (VList [])]
           = {''last_update'', ''needs_check'', ''stream_count'', ''checked_stream_ids''}"
proof -
  have one: "map_of (channels (mark_channel_updated t now channel_id timestamp stream_count)) channel_id =
      Some (updated_fields (case timestamp of None \<Rightarrow> now | Some ts \<Rightarrow> ts) stream_count
              (entry_get info ''checked_stream_ids'' (VList [])))"
    using assms(1) by (simp add: mark_channel_updated_entry kept_checked_def)
  have many: "map_of (channels (mark_channels_updated t now channel_ids timestamp stream_counts)) channel_id =
      Some (updated_fields (case timestamp of None \<Rightarrow> now | Some ts \<Rightarrow> ts)
              ((case stream_counts of None \<Rightarrow> Map.empty | Some m \<Rightarrow> m) channel_id)
              (entry_get info ''checked_stream_ids'' (VList [])))"
    using assms by (simp add: mark_channels_updated_def mark_channels_loop_entry kept_checked_def)
  have f1: "should_force_check (mark_channel_updated t now channel_id timestamp stream_count) channel_id
      = VBool False"
    by (simp add: should_force_check_def one) (simp add: updated_fields_def entry_get_def)
  have f2: "should_force_check (mark_channels_updated t now channel_ids timestamp stream_counts) channel_id
      = VBool False"
    by (simp add: should_force_check_def many) (simp add: updated_fields_def entry_get_def)
  from one many f1 f2 dom_updated_fields show ?thesis
    by (simp add: updated_fields_def)
qed

theorem C9_mark_updated_replaces_entry_witness:
  "should_force_check tracker_forced 5 = VBool True \<and>
   map_of (channels (mark_channel_updated tracker_forced ''2025-11-21T10:00:00'' 5 None (Some 3))) 5 =
     Some [''last_update'' \<mapsto> VStr ''2025-11-21T10:00:00'',
           ''needs_check'' \<mapsto> VBool True,
           ''stream_count'' \<mapsto> VInt 3,
           ''checked_stream_ids'' \<mapsto> VList [10, 11]] \<and>
   should_force_check (mark_channel_updated tracker_forced ''2025-11-21T10:00:00'' 5 None (Some 3)) 5
     = VBool False \<and>
   should_force_check (mark_channels_updated tracker_forced ''2025-11-21T10:00:00'' [4, 5] None None) 5
     = VBool False"
proof -
  have m: "map_of (channels tracker_forced) 5 =
      Some [''needs_check'' \<mapsto> VBool False,
            ''last_check'' \<mapsto> VStr ''2025-11-20T03:00:00'',
            ''queued_at'' \<mapsto> VStr ''2025-11-20T02:59:00'',
            ''stream_count'' \<mapsto> VInt 2,
            ''checked_stream_ids'' \<mapsto> VList [10, 11],
            ''force_check'' \<mapsto> VBool True]"
    by (simp add: tracker_forced_def)
  have s: "(5::int) \<in> set [4, 5]" by simp
  have b: "should_force_check tracker_forced 5 = VBool True"
    by (simp add: should_force_check_def tracker_forced_def entry_get_def)
  from C9_mark_updated_replaces_entry [OF m s, of "''2025-11-21T10:00:00''" None "Some 3" None] b
  show ?thesis by (simp add: entry_get_def opt_int_def)
qed

lemmas clock_defs = at_clock_def microseconds_per_day_def microseconds_per_hour_def
  microseconds_per_minute_def

section \<open>Scheduler: the cron check\<close>

text \<open>
  Claim C4 says that for every evaluation time and valid cron expression the check launches
  the Global Action if and only if condition (i) or (ii) holds. The check first passes two
  gates, \<^verbatim>\<open>global_check_schedule.enabled\<close> and the pipeline mode. In mode
  \<^verbatim>\<open>pipeline_1\<close>, with the valid expression \<^verbatim>\<open>'0 3 * * *'\<close>, no recorded check and the
  clock at 03:05, condition (i) holds (the previous scheduled instant, 03:00, is 5 minutes
  back) and nothing is launched.
\<close>

theorem C4_pipeline_gate_counterexample:
  "is_valid croniter_daily_3am (effective_cron (config_default_schedule ''pipeline_1'')) \<and>
   last_global_check tracker_fresh = None \<and>
   \<bar>at_clock 3 5 - get_prev croniter_daily_3am (effective_cron (config_default_schedule ''pipeline_1''))
                      (at_clock 3 5)\<bar> \<le> 10 * microseconds_per_minute \<and>
   fst (check_global_schedule croniter_daily_3am fromisoformat_sample
          (config_default_schedule ''pipeline_1'') tracker_fresh (at_clock 3 5)
          ''2024-04-24T03:05:30'') = NotLaunched"
  by (simp add: check_global_schedule_def croniter_daily_3am_def config_default_schedule_def
        tracker_fresh_def effective_cron_def clock_defs)

text \<open>With the schedule disabled, or in any other pipeline mode, the check launches
  nothing and leaves the tracker as it is.\<close>

lemma check_global_schedule_gated:
  assumes "\<not> schedule_enabled cfg \<or>
           pipeline_mode cfg \<notin> set [''pipeline_1_5'', ''pipeline_2_5'', ''pipeline_3'', ''pipeline_4'']"
  shows "check_global_schedule lib fromisoformat cfg t now mark_now = (NotLaunched, t)"
  using assms by (auto simp: check_global_schedule_def)

text \<open>
  Claim C4, amended. When the schedule is enabled, the pipeline mode is one of
  \<^verbatim>\<open>pipeline_1_5\<close>, \<^verbatim>\<open>pipeline_2_5\<close>, \<^verbatim>\<open>pipeline_3\<close>, \<^verbatim>\<open>pipeline_4\<close>, and the cron
  expression is valid (with \<^verbatim>\<open>croniter\<close> installed), the check launches the Global Action
  if and only if either (i) no last global check is recorded and \<open>now\<close> is within 10 minutes
  of the previous scheduled instant, or (ii) a last global check is recorded, parses as a
  timestamp, and the previous scheduled instant is strictly after it. After a launch the
  recorded check is the mark's timestamp; as long as the previous scheduled instant is not
  after that timestamp, a further evaluation launches nothing: one run per scheduled
  interval.
\<close>

theorem C4_cron_launch:
  assumes "schedule_enabled cfg"
      and "pipeline_mode cfg \<in> set [''pipeline_1_5'', ''pipeline_2_5'', ''pipeline_3'', ''pipeline_4'']"
      and "installed lib"
      and "is_valid lib (effective_cron cfg)"
  shows "(fst (check_global_schedule lib fromisoformat cfg t now mark_now) = Launched \<longleftrightarrow>
            (last_global_check t = None \<and>
               \<bar>now - get_prev lib (effective_cron cfg) now\<bar> \<le> 10 * microseconds_per_minute) \<or>
            (\<exists>s last_check_time.
               last_global_check t = Some s \<and> fromisoformat s = Some last_check_time \<and>
               last_check_time < get_prev lib (effective_cron cfg) now)) \<and>
         (fst (check_global_schedule lib fromisoformat cfg t now mark_now) = Launched \<longrightarrow>
          fromisoformat mark_now = Some marked \<longrightarrow>
          get_prev lib (effective_cron cfg) now' \<le> marked \<longrightarrow>
          fst (check_global_schedule lib fromisoformat cfg
                 (snd (check_global_schedule lib fromisoformat cfg t now mark_now)) now' mark_now')
            = NotLaunched)"
proof (intro conjI impI)
  show "fst (check_global_schedule lib fromisoformat cfg t now mark_now) = Launched \<longleftrightarrow>
            (last_global_check t = None \<and>
               \<bar>now - get_prev lib (effective_cron cfg) now\<bar> \<le> 10 * microseconds_per_minute) \<or>
            (\<exists>s last_check_time.
               last_global_check t = Some s \<and> fromisoformat s = Some last_check_time \<and>
               last_check_time < get_prev lib (effective_cron cfg) now)"
    using assms
    by (auto simp: check_global_schedule_def get_last_global_check_def Let_def
          split: option.splits)
next
  assume l: "fst (check_global_schedule lib fromisoformat cfg t now mark_now) = Launched"
     and m: "fromisoformat mark_now = Some marked"
     and p: "get_prev lib (effective_cron cfg) now' \<le> marked"
  from l assms have s: "snd (check_global_schedule lib fromisoformat cfg t now mark_now) =
      mark_global_check t mark_now None"
    by (auto simp: check_global_schedule_def get_last_global_check_def Let_def
          split: option.splits if_splits)
  have "fst (check_global_schedule lib fromisoformat cfg (mark_global_check t mark_now None)
               now' mark_now') = NotLaunched"
    using assms m p
    by (simp add: check_global_schedule_def get_last_global_check_def mark_global_check_def)
  then show "fst (check_global_schedule lib fromisoformat cfg
                 (snd (check_global_schedule lib fromisoformat cfg t now mark_now)) now' mark_now')
            = NotLaunched"
    by (simp only: s)
qed

theorem C4_cron_launch_witness:
  "schedule_enabled (config_default_schedule ''pipeline_1_5'') \<and>
   pipeline_mode (config_default_schedule ''pipeline_1_5'')
     \<in> set [''pipeline_1_5'', ''pipeline_2_5'', ''pipeline_3'', ''pipeline_4''] \<and>
   installed croniter_daily_3am \<and>
   is_valid croniter_daily_3am (effective_cron (config_default_schedule ''pipeline_1_5'')) \<and>
   get_prev croniter_daily_3am ''0 3 * * *'' (at_clock 3 5) = at_clock 3 0 \<and>
   fst (check_global_schedule croniter_daily_3am fromisoformat_sample
          (config_default_schedule ''pipeline_1_5'') tracker_fresh (at_clock 3 5)
          ''2024-04-24T03:05:30'') = Launched \<and>
   fst (check_global_schedule croniter_daily_3am fromisoformat_sample
          (config_default_schedule ''pipeline_1_5'') tracker_fresh (at_clock 3 15)
          ''2024-04-24T03:15:30'') = NotLaunched \<and>
   fst (check_global_schedule croniter_daily_3am fromisoformat_sample
          (config_default_schedule ''pipeline_1_5'')
          (snd (check_global_schedule croniter_daily_3am fromisoformat_sample
                  (config_default_schedule ''pipeline_1_5'') tracker_fresh (at_clock 3 5)
                  ''2024-04-24T03:05:30''))
          (at_clock 3 6) ''2024-04-24T03:06:30'') = NotLaunched"
proof -
  let ?cfg = "config_default_schedule ''pipeline_1_5''"
  have a: "schedule_enabled ?cfg"
    and b: "pipeline_mode ?cfg \<in> set [''pipeline_1_5'', ''pipeline_2_5'', ''pipeline_3'', ''pipeline_4'']"
    and c: "installed croniter_daily_3am"
    and d: "is_valid croniter_daily_3am (effective_cron ?cfg)"
    by (simp_all add: config_default_schedule_def croniter_daily_3am_def effective_cron_def)
  have e: "effective_cron ?cfg = ''0 3 * * *''"
    by (simp add: config_default_schedule_def effective_cron_def)
  have p5: "get_prev croniter_daily_3am ''0 3 * * *'' (at_clock 3 5) = at_clock 3 0"
    and p6: "get_prev croniter_daily_3am ''0 3 * * *'' (at_clock 3 6) = at_clock 3 0"
    and p15: "get_prev croniter_daily_3am ''0 3 * * *'' (at_clock 3 15) = at_clock 3 0"
    by (simp_all add: croniter_daily_3am_def clock_defs)
  have f: "last_global_check tracker_fresh = None" by (simp add: tracker_fresh_def)
  have m: "fromisoformat_sample ''2024-04-24T03:05:30'' = Some (at_clock 3 5 + 30 * 1000000)"
    by (simp add: fromisoformat_sample_def)
  note T5 = C4_cron_launch [OF a b c d, where fromisoformat = fromisoformat_sample
      and t = tracker_fresh and now = "at_clock 3 5" and mark_now = "''2024-04-24T03:05:30''"
      and marked = "at_clock 3 5 + 30 * 1000000" and now' = "at_clock 3 6"
      and mark_now' = "''2024-04-24T03:06:30''"]
  note T15 = C4_cron_launch [OF a b c d, where fromisoformat = fromisoformat_sample
      and t = tracker_fresh and now = "at_clock 3 15" and mark_now = "''2024-04-24T03:15:30''"
      and marked = 0 and now' = 0 and mark_now' = "''''"]
  have l5: "fst (check_global_schedule croniter_daily_3am fromisoformat_sample ?cfg tracker_fresh
               (at_clock 3 5) ''2024-04-24T03:05:30'') = Launched"
    using T5 [THEN conjunct1] by (simp add: e f p5) (simp add: clock_defs)
  have l15: "fst (check_global_schedule croniter_daily_3am fromisoformat_sample ?cfg tracker_fresh
               (at_clock 3 15) ''2024-04-24T03:15:30'') = NotLaunched"
  proof -
    have "fst (check_global_schedule croniter_daily_3am fromisoformat_sample ?cfg tracker_fresh
               (at_clock 3 15) ''2024-04-24T03:15:30'') \<noteq> Launched"
      using T15 [THEN conjunct1] by (simp add: e f p15) (simp add: clock_defs)
    moreover have "fst (check_global_schedule croniter_daily_3am fromisoformat_sample ?cfg tracker_fresh
               (at_clock 3 15) ''2024-04-24T03:15:30'') \<noteq> RaisedValueError"
      by (simp add: check_global_schedule_def f get_last_global_check_def Let_def)
    ultimately show ?thesis
      by (cases "fst (check_global_schedule croniter_daily_3am fromisoformat_sample ?cfg tracker_fresh
               (at_clock 3 15) ''2024-04-24T03:15:30'')") auto
  qed
  have l6: "fst (check_global_schedule croniter_daily_3am fromisoformat_sample ?cfg
          (snd (check_global_schedule croniter_daily_3am fromisoformat_sample ?cfg tracker_fresh
                  (at_clock 3 5) ''2024-04-24T03:05:30''))
          (at_clock 3 6) ''2024-04-24T03:06:30'') = NotLaunched"
    using T5 [THEN conjunct2] l5 m by (simp add: e p6) (simp add: clock_defs)
  from a b c d p5 l5 l15 l6 show ?thesis by (intro conjI)
qed

section \<open>Configuration\<close>

lemma map_of_dict_update:
  "distinct (map fst upd) \<Longrightarrow>
   map_of (dict_update base upd) k = (case map_of upd k of Some v \<Rightarrow> Some v | None \<Rightarrow> map_of base k)"
proof (induction upd arbitrary: base)
  case Nil
  then show ?case by simp
next
  case (Cons a upd)
  obtain k' v' where a: "a = (k', v')" by (cases a)
  from Cons.prems a have d: "distinct (map fst upd)" and n: "map_of upd k' = None"
    by (auto simp: map_of_eq_None_iff)
  show ?case
    using Cons.IH [OF d, of "dict_set base k' v'"] n
    by (auto simp: a map_of_dict_set split: option.splits)
qed

lemma deep_update_step:
  "deep_update base ((key, value) # rest) =
     deep_update (dict_set base key (merged (map_of base key) value)) rest"
  by (simp add: merged_def split: json.splits option.splits)

lemma map_of_deep_update:
  "distinct (map fst upd) \<Longrightarrow>
   map_of (deep_update base upd) k =
     (case map_of upd k of Some v \<Rightarrow> Some (merged (map_of base k) v) | None \<Rightarrow> map_of base k)"
proof (induction upd arbitrary: base)
  case Nil
  then show ?case by simp
next
  case (Cons a upd)
  obtain k' v' where a: "a = (k', v')" by (cases a)
  from Cons.prems a have d: "distinct (map fst upd)" and n: "map_of upd k' = None"
    by (auto simp: map_of_eq_None_iff)
  show ?case
    unfolding a deep_update_step
    using Cons.IH [OF d, of "dict_set base k' (merged (map_of base k') v')"] n
    by (auto simp: map_of_dict_set split: option.splits)
qed

lemma map_of_deep_update_untouched:
  "map_of upd k = None \<Longrightarrow> map_of (deep_update base upd) k = map_of base k"
proof (induction upd arbitrary: base)
  case Nil
  then show ?case by simp
next
  case (Cons a upd)
  obtain k' v' where a: "a = (k', v')" by (cases a)
  from Cons.prems a have n: "map_of upd k = None" and ne: "k' \<noteq> k"
    by (auto split: if_splits)
  show ?case
    unfolding a deep_update_step
    using Cons.IH [OF n, of "dict_set base k' (merged (map_of base k') v')"] ne
    by (simp add: map_of_dict_set)
qed


text \<open>
  Claim C10. For a config file holding a JSON object \<open>loaded\<close>, \<^verbatim>\<open>_load_config\<close>
  returns the defaults updated with \<open>loaded\<close> at the top level only: every top-level key of
  the file has exactly the file's value, every other key the default. So a section \<open>u\<close>
  of the file replaces the default section \<open>b\<close> as a whole: a default sibling key that
  \<open>u\<close> does not mention is gone (\<^verbatim>\<open>get\<close> falls back to the caller's default), whereas
  \<^verbatim>\<open>update\<close> with the same dict merges recursively and keeps the sibling's default value.
\<close>

theorem C10_load_is_shallow:
  assumes "distinct (map fst loaded)"
      and "map_of loaded section = Some (JObj u)"
      and "map_of DEFAULT_CONFIG section = Some (JObj b)"
      and "map_of u sibling = None"
  shows "fst (load_config (FileObject loaded)) = dict_update DEFAULT_CONFIG loaded \<and>
         (\<forall>k. map_of (fst (load_config (FileObject loaded))) k =
                (case map_of loaded k of Some v \<Rightarrow> Some v | None \<Rightarrow> map_of DEFAULT_CONFIG k)) \<and>
         map_of (fst (load_config (FileObject loaded))) section = Some (JObj u) \<and>
         config_get (fst (load_config (FileObject loaded))) [section, sibling] dflt = dflt \<and>
         map_of (config_update DEFAULT_CONFIG loaded) section = Some (JObj (deep_update b u)) \<and>
         map_of (deep_update b u) sibling = map_of b sibling"
proof -
  have l: "fst (load_config (FileObject loaded)) = dict_update DEFAULT_CONFIG loaded"
    by (simp add: load_config_def)
  have top: "\<And>k. map_of (dict_update DEFAULT_CONFIG loaded) k =
                (case map_of loaded k of Some v \<Rightarrow> Some v | None \<Rightarrow> map_of DEFAULT_CONFIG k)"
    by (rule map_of_dict_update [OF assms(1)])
  have sec: "map_of (dict_update DEFAULT_CONFIG loaded) section = Some (JObj u)"
    by (simp add: top assms(2))
  have gone: "config_get (dict_update DEFAULT_CONFIG loaded) [section, sibling] dflt = dflt"
    by (simp add: config_get_def sec assms(4))
  have deep: "map_of (config_update DEFAULT_CONFIG loaded) section = Some (JObj (deep_update b u))"
    by (simp add: config_update_def map_of_deep_update [OF assms(1)] assms(2,3) merged_def)
  have kept: "map_of (deep_update b u) sibling = map_of b sibling"
    by (rule map_of_deep_update_untouched [OF assms(4)])
  from l top sec gone deep kept show ?thesis by simp
qed

theorem C10_load_is_shallow_witness:
  "distinct (map fst file_min_score) \<and>
   map_of file_min_score ''scoring'' = Some (JObj [(''min_score'', JNum (1 / 2))]) \<and>
   map_of [(''min_score'', JNum (1 / 2))] ''prefer_h265'' = None \<and>
   map_of (fst (load_config (FileObject file_min_score))) ''scoring''
     = Some (JObj [(''min_score'', JNum (1 / 2))]) \<and>
   config_get (fst (load_config (FileObject file_min_score))) [''scoring'', ''prefer_h265''] (JBool False)
     = JBool False \<and>
   config_get (config_update DEFAULT_CONFIG file_min_score) [''scoring'', ''prefer_h265''] (JBool False)
     = JBool True \<and>
   config_get (config_update DEFAULT_CONFIG file_min_score) [''scoring'', ''min_score''] JNull
     = JNum (1 / 2)"
proof -
  let ?b = "[(''weights'', JObj
            [(''bitrate'', JNum (30 / 100)),
             (''resolution'', JNum (25 / 100)),
             (''fps'', JNum (15 / 100)),
             (''codec'', JNum (10 / 100)),
             (''errors'', JNum (20 / 100))]),
          (''min_score'', JNum 0),
          (''prefer_h265'', JBool True),
          (''penalize_interlaced'', JBool True),
          (''penalize_dropped_frames'', JBool True)]"
  have d: "distinct (map fst file_min_score)" by (simp add: file_min_score_def)
  have s: "map_of file_min_score ''scoring'' = Some (JObj [(''min_score'', JNum (1 / 2))])"
    by (simp add: file_min_score_def)
  have b: "map_of DEFAULT_CONFIG ''scoring'' = Some (JObj ?b)"
    by (simp add: DEFAULT_CONFIG_def)
  have n: "map_of [(''min_score'', JNum (1 / 2))] ''prefer_h265'' = None" by simp
  note T = C10_load_is_shallow [OF d s b n, of "JBool False"]
  have g1: "config_get (config_update DEFAULT_CONFIG file_min_score) [''scoring'', ''prefer_h265'']
              (JBool False) = JBool True"
    using T by (simp add: config_get_def)
  have g2: "config_get (config_update DEFAULT_CONFIG file_min_score) [''scoring'', ''min_score'']
              JNull = JNum (1 / 2)"
    using T by (simp add: config_get_def)
  from T have t3: "map_of (fst (load_config (FileObject file_min_score))) ''scoring''
      = Some (JObj [(''min_score'', JNum (1 / 2))])"
    and t4: "config_get (fst (load_config (FileObject file_min_score)))
      [''scoring'', ''prefer_h265''] (JBool False) = JBool False"
    by blast+
  from d s n t3 t4 g1 g2 show ?thesis by (intro conjI)
qed

section \<open>Event-time ordering\<close>

subsection \<open>Stable sorting\<close>

lemma mset_py_sort [simp]: "mset (py_sort key xs) = mset xs"
  by (simp add: py_sort_def)

lemma mset_py_sort_reverse [simp]: "mset (py_sort_reverse key xs) = mset xs"
  by (simp add: py_sort_reverse_def)

lemma sorted_py_sort: "sorted (map key (py_sort key xs))"
  by (simp add: py_sort_def)

lemma sorted_py_sort_reverse: "sorted (rev (map key (py_sort_reverse key xs)))"
  by (simp add: py_sort_reverse_def rev_map)

lemma py_sort_reverse_stable:
  "filter (\<lambda>x. key x = k) (py_sort_reverse key xs) = filter (\<lambda>x. key x = k) xs"
proof -
  have "filter (\<lambda>x. key x = k) (sort_key key (rev xs)) = filter (\<lambda>x. key x = k) (rev xs)"
    by (rule sort_key_stable)
  then show ?thesis
    by (simp add: py_sort_reverse_def rev_filter [symmetric])
qed

text \<open>A stable sort of a list whose keys fall into a lower and an upper class sorts the
  two classes separately.\<close>

lemma sort_key_split:
  assumes sep: "\<And>a b. a \<in> set xs \<Longrightarrow> b \<in> set xs \<Longrightarrow> P a \<Longrightarrow> \<not> P b \<Longrightarrow> key a < key b"
  shows "sort_key key xs = sort_key key (filter P xs) @ sort_key key (filter (\<lambda>x. \<not> P x) xs)"
proof (rule properties_for_sort_key)
  show "mset (sort_key key (filter P xs) @ sort_key key (filter (\<lambda>x. \<not> P x) xs)) = mset xs"
    by simp
  show "sorted (map key (sort_key key (filter P xs) @ sort_key key (filter (\<lambda>x. \<not> P x) xs)))"
    using sep by (auto simp: sorted_append intro: less_imp_le)
next
  fix k
  assume "k \<in> set (sort_key key (filter P xs) @ sort_key key (filter (\<lambda>x. \<not> P x) xs))"
  then have kx: "k \<in> set xs" by auto
  have l: "filter (\<lambda>x. key k = key x) (sort_key key (filter P xs)) =
        filter (\<lambda>x. key k = key x) (filter P xs)"
    using sort_key_stable [of key "key k" "filter P xs"] by (simp add: eq_commute)
  have r: "filter (\<lambda>x. key k = key x) (sort_key key (filter (\<lambda>x. \<not> P x) xs)) =
        filter (\<lambda>x. key k = key x) (filter (\<lambda>x. \<not> P x) xs)"
    using sort_key_stable [of key "key k" "filter (\<lambda>x. \<not> P x) xs"] by (simp add: eq_commute)
  show "filter (\<lambda>x. key k = key x) (sort_key key (filter P xs) @ sort_key key (filter (\<lambda>x. \<not> P x) xs))
        = filter (\<lambda>x. key k = key x) xs"
  proof (cases "P k")
    case True
    have nk: "\<And>x. x \<in> set xs \<Longrightarrow> \<not> P x \<Longrightarrow> key k \<noteq> key x"
      using sep [OF kx _ True] by (metis less_irrefl)
    have a: "filter (\<lambda>x. key k = key x) (filter (\<lambda>x. \<not> P x) xs) = []"
      using nk by (auto simp: filter_empty_conv)
    have b: "filter (\<lambda>x. key k = key x) (filter P xs) = filter (\<lambda>x. key k = key x) xs"
      using nk by (auto intro!: filter_cong)
    show ?thesis by (simp add: l r a b del: filter_filter)
  next
    case False
    have nk: "\<And>x. x \<in> set xs \<Longrightarrow> P x \<Longrightarrow> key k \<noteq> key x"
      using sep [OF _ kx _ False] by (metis less_irrefl)
    have a: "filter (\<lambda>x. key k = key x) (filter P xs) = []"
      using nk by (auto simp: filter_empty_conv)
    have b: "filter (\<lambda>x. key k = key x) (filter (\<lambda>x. \<not> P x) xs) = filter (\<lambda>x. key k = key x) xs"
      using nk by (auto intro!: filter_cong)
    show ?thesis by (simp add: l r a b del: filter_filter)
  qed
qed

text \<open>Two keys that order the elements of a list alike give the same stable sort.\<close>

lemma sort_key_cong_order:
  assumes eqv: "\<And>a b. a \<in> set xs \<Longrightarrow> b \<in> set xs \<Longrightarrow> key a \<le> key b \<longleftrightarrow> key' a \<le> key' b"
  shows "sort_key key xs = sort_key key' xs"
proof (rule properties_for_sort_key)
  show "mset (sort_key key' xs) = mset xs" by simp
  have "sorted_wrt (\<lambda>a b. key' a \<le> key' b) (sort_key key' xs)"
    using sorted_sort_key [of key' xs] by (simp add: sorted_map)
  then have "sorted_wrt (\<lambda>a b. key a \<le> key b) (sort_key key' xs)"
    by (rule sorted_wrt_mono_rel [rotated]) (simp add: eqv)
  then show "sorted (map key (sort_key key' xs))" by (simp add: sorted_map)
next
  fix k
  assume "k \<in> set (sort_key key' xs)"
  then have kx: "k \<in> set xs" by simp
  have e: "\<And>x. x \<in> set xs \<Longrightarrow> key k = key x \<longleftrightarrow> key' k = key' x"
    using eqv kx by (metis order_antisym order_refl)
  have "filter (\<lambda>x. key k = key x) (sort_key key' xs) = filter (\<lambda>x. key' k = key' x) (sort_key key' xs)"
    by (rule filter_cong) (simp_all add: e)
  also have "\<dots> = filter (\<lambda>x. key' k = key' x) xs"
    using sort_key_stable [of key' "key' k" xs] by (simp add: eq_commute)
  also have "\<dots> = filter (\<lambda>x. key k = key x) xs"
    by (rule filter_cong) (simp_all add: e)
  finally show "filter (\<lambda>x. key k = key x) (sort_key key' xs) = filter (\<lambda>x. key k = key x) xs" .
qed

lemma sort_key_const:
  assumes "\<And>a. a \<in> set xs \<Longrightarrow> key a = c"
  shows "sort_key key xs = xs"
proof (rule properties_for_sort_key)
  show "mset xs = mset xs" by simp
  have "map key xs = replicate (length xs) c"
    using assms by (auto simp: map_replicate_const [symmetric] intro!: map_cong)
  then show "sorted (map key xs)" by (simp add: sorted_replicate)
qed simp


subsection \<open>The ordering of the conflict resolver\<close>

lemma time_key_no_time: "has_no_time x \<Longrightarrow> time_key x = (datetime_min, item_num x)"
  by (simp add: has_no_time_def time_key_def)

lemma not_upcoming_split:
  "\<not> is_upcoming now s \<longleftrightarrow> is_past now s \<or> has_no_time s"
  by (auto simp: is_upcoming_def is_past_def has_no_time_def split: option.splits)

lemma past_not_no_time: "is_past now s \<Longrightarrow> \<not> has_no_time s"
  by (auto simp: is_past_def has_no_time_def split: option.splits)

lemma py_sort_reverse_split:
  assumes sep: "\<And>a b. a \<in> set xs \<Longrightarrow> b \<in> set xs \<Longrightarrow> P a \<Longrightarrow> \<not> P b \<Longrightarrow> key a < key b"
  shows "py_sort_reverse key xs =
         py_sort_reverse key (filter (\<lambda>x. \<not> P x) xs) @ py_sort_reverse key (filter P xs)"
proof -
  have "sort_key key (rev xs) =
        sort_key key (filter P (rev xs)) @ sort_key key (filter (\<lambda>x. \<not> P x) (rev xs))"
    by (rule sort_key_split) (simp add: sep)
  then show ?thesis
    by (simp add: py_sort_reverse_def rev_filter)
qed

lemma py_sort_reverse_cong_order:
  assumes "\<And>a b. a \<in> set xs \<Longrightarrow> b \<in> set xs \<Longrightarrow> key a \<le> key b \<longleftrightarrow> key' a \<le> key' b"
  shows "py_sort_reverse key xs = py_sort_reverse key' xs"
proof -
  have "sort_key key (rev xs) = sort_key key' (rev xs)"
    by (rule sort_key_cong_order) (simp add: assms)
  then show ?thesis by (simp add: py_sort_reverse_def)
qed

lemma py_sort_reverse_const:
  assumes "\<And>a. a \<in> set xs \<Longrightarrow> key a = c"
  shows "py_sort_reverse key xs = xs"
proof -
  have "sort_key key (rev xs) = rev xs"
    by (rule sort_key_const [where c = c]) (simp add: assms)
  then show ?thesis by (simp add: py_sort_reverse_def)
qed

lemma past_block:
  assumes pos: "\<And>s t. s \<in> set xs \<Longrightarrow> event_time s = Some t \<Longrightarrow> datetime_min < t"
  shows "py_sort_reverse time_key (filter (\<lambda>s. \<not> is_upcoming now s) xs) =
         py_sort_reverse time_key (filter (is_past now) xs) @
         py_sort_reverse item_num (filter has_no_time xs)"
proof -
  let ?P = "filter (\<lambda>s. \<not> is_upcoming now s) xs"
  have sep: "\<And>a b. a \<in> set ?P \<Longrightarrow> b \<in> set ?P \<Longrightarrow> has_no_time a \<Longrightarrow> \<not> has_no_time b
      \<Longrightarrow> time_key a < time_key b"
  proof -
    fix a b
    assume a: "a \<in> set ?P" and b: "b \<in> set ?P" and na: "has_no_time a" and nb: "\<not> has_no_time b"
    from nb obtain t where t: "event_time b = Some t" by (auto simp: has_no_time_def)
    with b pos have "datetime_min < t" by auto
    with na t show "time_key a < time_key b"
      by (simp add: time_key_def has_no_time_def)
  qed
  have f1: "filter (\<lambda>x. \<not> has_no_time x) ?P = filter (is_past now) xs"
    by (auto simp: not_upcoming_split past_not_no_time intro!: filter_cong)
  have f2: "filter has_no_time ?P = filter has_no_time xs"
    by (auto simp: not_upcoming_split intro!: filter_cong)
  have "py_sort_reverse time_key ?P =
        py_sort_reverse time_key (filter (\<lambda>x. \<not> has_no_time x) ?P) @
        py_sort_reverse time_key (filter has_no_time ?P)"
    by (rule py_sort_reverse_split) (rule sep)
  also have "py_sort_reverse time_key (filter has_no_time ?P) =
             py_sort_reverse item_num (filter has_no_time ?P)"
    by (rule py_sort_reverse_cong_order) (simp add: time_key_no_time)
  finally show ?thesis by (simp only: f1 f2)
qed

lemma py_sort_stable: "filter (\<lambda>x. key x = k) (py_sort key xs) = filter (\<lambda>x. key x = k) xs"
  by (simp add: py_sort_def sort_key_stable)

lemma filter_py_sort: "filter P (py_sort key xs) = py_sort key (filter P xs)"
  by (simp add: py_sort_def filter_sort)

subsection \<open>The ordering of \<^verbatim>\<open>reorder_streams_by_event_time\<close>\<close>

lemma map_stream_id_no_time:
  "map stream_id (filter has_no_time (streams_with_times fetched)) =
   map fst (filter (\<lambda>p. snd p = None) fetched)"
proof -
  have "\<And>n. map stream_id (filter has_no_time
          (map (\<lambda>(idx, (sid, t)). \<lparr> stream_id = sid, event_time = t, item_num = 0, original_index = idx \<rparr>)
            (enumerate n fetched))) = map fst (filter (\<lambda>p. snd p = None) fetched)"
    by (induction fetched) (auto simp: has_no_time_def)
  then show ?thesis by (simp add: streams_with_times_def)
qed

lemma reorder_streams_by_event_time_blocks:
  "reorder_streams_by_event_time now fetched =
     map stream_id
       (py_sort index_key (filter (is_recent now) (streams_with_times fetched)) @
        py_sort index_key (filter (is_old now) (streams_with_times fetched))) @
     map fst (filter (\<lambda>p. snd p = None) fetched)"
proof -
  let ?S = "streams_with_times fetched"
  have k: "(\<lambda>s. (fst (time_key s), original_index s)) = index_key"
    by (simp add: index_key_def fun_eq_iff)
  have a: "filter (\<lambda>s. fst (time_key s) \<ge> now - 2 * microseconds_per_hour)
             (filter (\<lambda>s. event_time s \<noteq> None) ?S) = filter (is_recent now) ?S"
    by (auto simp: is_recent_def time_key_def intro!: filter_cong split: option.splits)
  have b: "filter (\<lambda>s. \<not> fst (time_key s) \<ge> now - 2 * microseconds_per_hour)
             (filter (\<lambda>s. event_time s \<noteq> None) ?S) = filter (is_old now) ?S"
    by (auto simp: is_old_def time_key_def intro!: filter_cong split: option.splits)
  have c: "filter (\<lambda>s. event_time s = None) ?S = filter has_no_time ?S"
    by (rule filter_cong) (simp_all add: has_no_time_def)
  show ?thesis
    unfolding reorder_streams_by_event_time_def Let_def k filter_py_sort a b c
    by (simp add: map_stream_id_no_time)
qed

subsection \<open>Claim C8: the order of the blocks\<close>

text \<open>
  Claim C8 says that past events are sorted descending and that the streams with no
  parsed event time keep their original input order. Both orderings it cites sort
  otherwise, each as its comments say. When no stream of a channel has a time,
  \<^verbatim>\<open>apply_event_time_ordering_for_channels\<close> sorts the whole list by item number
  (``No times, sort by item number''): the streams 1, 2, 3 with item numbers 3, 2, 3
  come out as 2, 1, 3. And \<^verbatim>\<open>reorder_streams_by_event_time\<close> sorts all streams with a
  time ascending (``by start time, then by original index for ties'') before it splits
  them: the past events 1 (07:00) and 2 (09:00) stay in that order, 2 does not come
  first.
\<close>

theorem C8_sorted_not_input_order_counterexample:
  "\<not> has_times channel_no_times \<and>
   map stream_id (filter has_no_time channel_no_times) = [1, 2, 3] \<and>
   map stream_id (order_streams noon channel_no_times) = [2, 1, 3] \<and>
   map stream_id (filter (is_old noon) (streams_with_times fetched_sample)) = [1, 2] \<and>
   reorder_streams_by_event_time noon fetched_sample = [4, 1, 2, 3]"
  by (simp add: order_streams_def channel_no_times_def stream_def has_times_def has_no_time_def
        py_sort_def reorder_streams_by_event_time_def streams_with_times_def fetched_sample_def
        is_old_def time_key_def noon_def clock_defs)

text \<open>
  Claim C8, amended.

  \<^verbatim>\<open>apply_event_time_ordering_for_channels\<close>, on a channel where at least one stream has
  an event time (all event times after \<^verbatim>\<open>datetime.min\<close>): first the streams whose event
  time is within the 2-hour trailing buffer of \<open>now\<close> or in the future, sorted ascending
  by (event time, item number); then the past-event streams, sorted descending by (event
  time, item number); last the streams with no event time. On a channel where no stream
  has an event time: all streams sorted ascending by item number, those with the same
  item number in their input order.

  \<^verbatim>\<open>reorder_streams_by_event_time\<close>: first the streams whose event time is within the
  2-hour trailing buffer or in the future, then the past-event streams, both sorted
  ascending by (event time, input position); last the streams with no event time, in
  their input order.
\<close>

theorem C8_event_time_order:
  "(has_times xs \<and> after_datetime_min xs \<longrightarrow>
      (\<exists>last. order_streams now xs =
                 py_sort time_key (filter (is_upcoming now) xs) @
                 py_sort_reverse time_key (filter (is_past now) xs) @ last \<and>
               mset last = mset (filter has_no_time xs)) \<and>
      sorted (map time_key (py_sort time_key (filter (is_upcoming now) xs))) \<and>
      sorted (rev (map time_key (py_sort_reverse time_key (filter (is_past now) xs))))) \<and>
   (\<not> has_times xs \<longrightarrow>
      order_streams now xs = py_sort item_num xs \<and>
      sorted (map item_num (py_sort item_num xs)) \<and>
      (\<forall>n. filter (\<lambda>x. item_num x = n) (py_sort item_num xs) = filter (\<lambda>x. item_num x = n) xs)) \<and>
   reorder_streams_by_event_time now fetched =
     map stream_id
       (py_sort index_key (filter (is_recent now) (streams_with_times fetched)) @
        py_sort index_key (filter (is_old now) (streams_with_times fetched))) @
     map fst (filter (\<lambda>p. snd p = None) fetched) \<and>
   sorted (map index_key (py_sort index_key (filter (is_recent now) (streams_with_times fetched)))) \<and>
   sorted (map index_key (py_sort index_key (filter (is_old now) (streams_with_times fetched))))"
proof -
  have a: "\<exists>last. order_streams now xs =
                 py_sort time_key (filter (is_upcoming now) xs) @
                 py_sort_reverse time_key (filter (is_past now) xs) @ last \<and>
               mset last = mset (filter has_no_time xs)"
    if h: "has_times xs" and p: "after_datetime_min xs"
  proof -
    from p have pos: "\<And>s t. s \<in> set xs \<Longrightarrow> event_time s = Some t \<Longrightarrow> datetime_min < t"
      by (fastforce simp: after_datetime_min_def list_all_iff)
    have "order_streams now xs =
           py_sort time_key (filter (is_upcoming now) xs) @
           py_sort_reverse time_key (filter (is_past now) xs) @
           py_sort_reverse item_num (filter has_no_time xs)"
      using h by (simp add: order_streams_def Let_def past_block [OF pos])
    moreover have "mset (py_sort_reverse item_num (filter has_no_time xs)) = mset (filter has_no_time xs)"
      by simp
    ultimately show ?thesis by blast
  qed
  have b: "order_streams now xs = py_sort item_num xs" if "\<not> has_times xs"
    using that by (simp add: order_streams_def)
  from a b show ?thesis
    by (simp add: sorted_py_sort sorted_py_sort_reverse py_sort_stable
          reorder_streams_by_event_time_blocks)
qed

theorem C8_event_time_order_witness:
  "has_times channel_past \<and> after_datetime_min channel_past \<and>
   map stream_id (filter (is_upcoming noon) channel_past) = [4] \<and>
   map stream_id (filter (is_past noon) channel_past) = [1, 2] \<and>
   map stream_id (filter has_no_time channel_past) = [3] \<and>
   map stream_id (order_streams noon channel_past) = [4, 2, 1, 3] \<and>
   \<not> has_times channel_no_times \<and>
   map item_num channel_no_times = [3, 2, 3] \<and>
   map stream_id (order_streams noon channel_no_times) = [2, 1, 3] \<and>
   reorder_streams_by_event_time noon fetched_sample = [4, 1, 2, 3]"
proof -
  have h: "has_times channel_past"
    by (simp add: has_times_def channel_past_def stream_def)
  have p: "after_datetime_min channel_past"
    by (simp add: after_datetime_min_def channel_past_def stream_def datetime_min_def clock_defs)
  have u: "filter (is_upcoming noon) channel_past = [stream 4 (Some (at_clock 13 0)) 4 3]"
    by (simp add: channel_past_def stream_def is_upcoming_def buffer_hours_def noon_def clock_defs)
  have q: "filter (is_past noon) channel_past =
      [stream 1 (Some (at_clock 7 0)) 1 0, stream 2 (Some (at_clock 9 0)) 2 1]"
    by (simp add: channel_past_def stream_def is_past_def buffer_hours_def noon_def clock_defs)
  have n: "filter has_no_time channel_past = [stream 3 None 999 2]"
    by (simp add: channel_past_def stream_def has_no_time_def)
  note T = C8_event_time_order [where xs = channel_past and now = noon and fetched = fetched_sample]
  from T h p obtain last where
    o: "order_streams noon channel_past =
           py_sort time_key (filter (is_upcoming noon) channel_past) @
           py_sort_reverse time_key (filter (is_past noon) channel_past) @ last"
    and l: "mset last = mset (filter has_no_time channel_past)"
    by blast
  from l have "last = [stream 3 None 999 2]"
    by (simp add: n)
  with o have o': "map stream_id (order_streams noon channel_past) = [4, 2, 1, 3]"
    by (simp add: u q py_sort_def py_sort_reverse_def time_key_def stream_def clock_defs)
  have nh: "\<not> has_times channel_no_times"
    by (simp add: has_times_def channel_no_times_def stream_def)
  have items: "map item_num channel_no_times = [3, 2, 3]"
    by (simp add: channel_no_times_def stream_def)
  from C8_event_time_order [where xs = channel_no_times and now = noon and fetched = fetched_sample] nh
  have "order_streams noon channel_no_times = py_sort item_num channel_no_times"
    by blast
  then have o2: "map stream_id (order_streams noon channel_no_times) = [2, 1, 3]"
    by (simp add: py_sort_def channel_no_times_def stream_def)
  from T have "reorder_streams_by_event_time noon fetched_sample =
     map stream_id
       (py_sort index_key (filter (is_recent noon) (streams_with_times fetched_sample)) @
        py_sort index_key (filter (is_old noon) (streams_with_times fetched_sample))) @
     map fst (filter (\<lambda>p. snd p = None) fetched_sample)"
    by blast
  then have r: "reorder_streams_by_event_time noon fetched_sample = [4, 1, 2, 3]"
    by (simp add: streams_with_times_def fetched_sample_def is_recent_def is_old_def py_sort_def
          index_key_def time_key_def noon_def clock_defs)
  have u': "map stream_id (filter (is_upcoming noon) channel_past) = [4]"
    and q': "map stream_id (filter (is_past noon) channel_past) = [1, 2]"
    and n': "map stream_id (filter has_no_time channel_past) = [3]"
    by (simp_all add: u q n stream_def)
  from h p u' q' n' o' nh items o2 r show ?thesis by (intro conjI)
qed

text \<open>
  The statement above leaves open the order of the streams without a time among
  themselves on a channel that has event times. There they are sorted together with the
  past events, in descending key order, so that a higher item number comes first, while
  the branch for a channel without event times sorts item numbers ascending and
  \<^verbatim>\<open>reorder_streams_by_event_time\<close> keeps the input order. In \<open>channel_mixed\<close> the streams
  2 and 3 (item numbers 1 and 2) come out as 3, 2.
\<close>

lemma order_streams_channel_mixed:
  "map stream_id (order_streams noon channel_mixed) = [1, 3, 2] \<and>
   map stream_id (filter has_no_time channel_mixed) = [2, 3]"
  by (simp add: order_streams_def channel_mixed_def stream_def has_times_def is_upcoming_def
        has_no_time_def py_sort_def py_sort_reverse_def time_key_def datetime_min_def
        buffer_hours_def noon_def clock_defs)

subsection \<open>Claim C7: the safeguard before the write\<close>

lemma mset_order_streams: "mset (order_streams now xs) = mset xs"
  by (simp add: order_streams_def Let_def)

text \<open>
  Claim C7 counts a candidate with a duplicate id among those the safeguard refuses. The
  safeguard compares the two id lists as sets (``ensure we're not losing streams (same
  set, different order)''): for the input ids 1, 2 the candidate 1, 2, 2 has the same
  set of ids, and the update call is issued with it.
\<close>

theorem C7_duplicate_id_counterexample:
  "reorder_safeguard [1, 2, 2] [1, 2] = Updated [1, 2, 2] \<and>
   update_calls (reorder_safeguard [1, 2, 2] [1, 2]) = [[1, 2, 2]] \<and>
   \<not> distinct [1, 2, 2 :: int] \<and> distinct [1, 2 :: int]"
  by (simp add: reorder_safeguard_def)

text \<open>
  Claim C7, amended. For a non-empty list of input ids and any candidate list: if the
  candidate is empty or its set of ids differs from the set of input ids (an id of the
  input is missing, or an id is not one of the input), the safeguard issues no update
  call and the loop leaves the channel (\<^verbatim>\<open>continue\<close>) before the overflow handling, so
  nothing is written to it. In every other case but that of an unchanged list the update
  call is issued with the candidate; a candidate that only repeats ids of the input is
  among these.
\<close>

theorem C7_reorder_safeguard:
  assumes "stream_ids \<noteq> []"
  shows "update_calls (reorder_safeguard reordered_ids stream_ids) =
           (if reordered_ids = [] \<or> set reordered_ids \<noteq> set stream_ids \<or> reordered_ids = stream_ids
            then [] else [reordered_ids]) \<and>
         (reaches_overflow_handling (reorder_safeguard reordered_ids stream_ids) \<longleftrightarrow>
            \<not> (reordered_ids = [] \<or> set reordered_ids \<noteq> set stream_ids))"
  using assms by (auto simp: reorder_safeguard_def)

theorem C7_reorder_safeguard_witness:
  "[1, 2, 3] \<noteq> ([] :: int list) \<and>
   set [1, 2 :: int] \<noteq> set [1, 2, 3] \<and>
   update_calls (reorder_safeguard [1, 2] [1, 2, 3]) = [] \<and>
   \<not> reaches_overflow_handling (reorder_safeguard [1, 2] [1, 2, 3]) \<and>
   update_calls (reorder_safeguard [] [1, 2, 3]) = [] \<and>
   \<not> reaches_overflow_handling (reorder_safeguard [] [1, 2, 3]) \<and>
   set [3, 1, 2 :: int] = set [1, 2, 3] \<and>
   update_calls (reorder_safeguard [3, 1, 2] [1, 2, 3]) = [[3, 1, 2]]"
proof -
  have n: "[1, 2, 3] \<noteq> ([] :: int list)" by simp
  have d: "set [1, 2 :: int] \<noteq> set [1, 2, 3]"
  proof
    assume e: "set [1, 2 :: int] = set [1, 2, 3]"
    have "(3::int) \<in> set [1, 2, 3]" by simp
    then have "(3::int) \<in> set [1, 2]" by (simp only: e)
    then show False by simp
  qed
  have e: "set [3, 1, 2 :: int] = set [1, 2, 3]"
    by (simp add: insert_commute)
  from C7_reorder_safeguard [OF n, where reordered_ids = "[1, 2]"] d
  have t1: "update_calls (reorder_safeguard [1, 2] [1, 2, 3]) = []"
    and t2: "\<not> reaches_overflow_handling (reorder_safeguard [1, 2] [1, 2, 3])"
    by simp_all
  from C7_reorder_safeguard [OF n, where reordered_ids = "[]"]
  have t3: "update_calls (reorder_safeguard [] [1, 2, 3]) = []"
    and t4: "\<not> reaches_overflow_handling (reorder_safeguard [] [1, 2, 3])"
    by simp_all
  from C7_reorder_safeguard [OF n, where reordered_ids = "[3, 1, 2]"] e
  have t5: "update_calls (reorder_safeguard [3, 1, 2] [1, 2, 3]) = [[3, 1, 2]]"
    by simp
  from n d t1 t2 t3 t4 e t5 show ?thesis by (intro conjI)
qed

text \<open>
  The candidate the function itself builds is the list of the ids of the reordered
  streams, a permutation of the input ids: what \<^verbatim>\<open>order_channel\<close> writes never drops,
  adds or repeats an id.
\<close>

lemma order_channel_writes_permutation:
  "(case order_channel now streams_data of
      Some (Updated ids) \<Rightarrow> mset ids = mset (map stream_id streams_data)
    | _ \<Rightarrow> True)"
proof -
  have "mset (map stream_id (order_streams now streams_data)) = mset (map stream_id streams_data)"
    by (simp add: mset_order_streams)
  then show ?thesis
    by (auto simp: order_channel_def reorder_safeguard_def Let_def
          split: option.splits reorder_outcome.splits if_splits)
qed

end
